theory Spec2Isabelle
  imports Complex_Main "HOL-Library.Multiset" "HOL-Library.Word" "HOL-Library.Log_Nat"
begin

section \<open>Strings as the search aggregator uses them\<close>

text \<open>
  A JavaScript string is a sequence of UTF-16 code units, and comparison, \<open>split\<close>,
  \<open>startsWith\<close> and \<open>includes\<close> work on the code units. \<open>str\<close> writes the
  string of a literal (each of its characters is one code unit).
\<close>

type_synonym codeUnit = "16 word"

type_synonym jsString = "codeUnit list"

definition str :: "string \<Rightarrow> jsString" where
  "str s = map (\<lambda>c. of_nat (of_char c)) s"

text \<open>
  \<open>String.prototype.toLowerCase\<close> maps a string by the Unicode case tables of the
  platform that runs the program; the tables are not in the repository. Every function
  that calls it takes it as its first argument, named \<open>toLowerCase\<close>, and what is
  proved of the functions is proved for every lower-casing.
\<close>

type_synonym lowerCasing = "jsString \<Rightarrow> jsString"

text \<open>
  \<open>String.prototype.trim\<close> strips white space and line terminators from both ends:
  TAB, LF, VT, FF, CR, the space separators (U+0020, U+00A0, U+1680, U+2000 to U+200A,
  U+202F, U+205F, U+3000), the line and paragraph separators U+2028 and U+2029, and
  U+FEFF. Each of them is one code unit.
\<close>

definition whiteSpaceUnits :: "codeUnit list" where
  "whiteSpaceUnits =
     [0x0009, 0x000A, 0x000B, 0x000C, 0x000D, 0x0020, 0x00A0, 0x1680,
      0x2000, 0x2001, 0x2002, 0x2003, 0x2004, 0x2005, 0x2006, 0x2007, 0x2008, 0x2009, 0x200A,
      0x2028, 0x2029, 0x202F, 0x205F, 0x3000, 0xFEFF]"

definition isWhiteSpace :: "codeUnit \<Rightarrow> bool" where
  "isWhiteSpace u = (u \<in> set whiteSpaceUnits)"

definition trim :: "jsString \<Rightarrow> jsString" where
  "trim s = rev (dropWhile isWhiteSpace (rev (dropWhile isWhiteSpace s)))"

text \<open>
  \<open>splitOn\<close> is \<open>String.prototype.split\<close> with a separator of one code unit (so
  \<open>splitOn sep [] = [[]]\<close>); \<open>startsWith\<close> and \<open>includesStr\<close> are the prefix
  and the contiguous-substring test.
\<close>

fun splitOn :: "codeUnit \<Rightarrow> jsString \<Rightarrow> jsString list" where
  "splitOn sep [] = [[]]"
| "splitOn sep (c # cs) =
     (if c = sep then [] # splitOn sep cs
      else (case splitOn sep cs of
              [] \<Rightarrow> [[c]]
            | w # ws \<Rightarrow> (c # w) # ws))"

definition startsWith :: "jsString \<Rightarrow> jsString \<Rightarrow> bool" where
  "startsWith s q = (take (length q) s = q)"

fun includesStr :: "jsString \<Rightarrow> jsString \<Rightarrow> bool" where
  "includesStr [] q = (q = [])"
| "includesStr (c # cs) q = (startsWith (c # cs) q \<or> includesStr cs q)"

text \<open>\<open>s.split(' ').filter(word => word.length > 0)\<close>\<close>

definition wordsOf :: "jsString \<Rightarrow> jsString list" where
  "wordsOf s = filter (\<lambda>word. length word > 0) (splitOn 0x0020 s)"

section \<open>Relevance scoring (\<open>calculateRelevance\<close> inside \<open>searchMultiType\<close>)\<close>

datatype itemType = Track | Artist | Album | Playlist

text \<open>
  \<open>queryLower = query.toLowerCase().trim()\<close> is computed once by
  \<open>searchMultiType\<close>; \<open>calculateRelevance\<close> is a closure over it.
\<close>

definition queryLowerOf :: "lowerCasing \<Rightarrow> jsString \<Rightarrow> jsString" where
  "queryLowerOf toLowerCase query = trim (toLowerCase query)"

text \<open>The body of the inner \<open>forEach\<close>: one (query word, name word) pair updates the score.\<close>

definition scoreWordPair :: "jsString \<Rightarrow> int \<Rightarrow> jsString \<Rightarrow> int" where
  "scoreWordPair queryWord score nameWord =
     (if nameWord = queryWord then score + 25
      else if includesStr nameWord queryWord \<or> includesStr queryWord nameWord then score + 10
      else score)"

definition calculateRelevance :: "lowerCasing \<Rightarrow> jsString \<Rightarrow> jsString \<Rightarrow> itemType \<Rightarrow> int" where
  "calculateRelevance toLowerCase queryLower name type =
     (let nameLower = toLowerCase name;
          score = (if nameLower = queryLower then 1000
                   else if startsWith nameLower queryLower then 100
                   else if includesStr nameLower queryLower then 50
                   else 0);
          queryWords = wordsOf queryLower;
          nameWords = wordsOf nameLower;
          score = foldl (\<lambda>score queryWord. foldl (scoreWordPair queryWord) score nameWords)
                    score queryWords
      in (case type of
            Track \<Rightarrow> score + 5
          | Artist \<Rightarrow> score + 3
          | Album \<Rightarrow> score + 2
          | Playlist \<Rightarrow> score + 1))"

text \<open>The score \<open>searchMultiType query\<close> gives a name of a category.\<close>

definition relevanceFor :: "lowerCasing \<Rightarrow> jsString \<Rightarrow> jsString \<Rightarrow> itemType \<Rightarrow> int" where
  "relevanceFor toLowerCase query name type =
     calculateRelevance toLowerCase (queryLowerOf toLowerCase query) name type"

subsection \<open>The scoring formula in the specification's words\<close>

text \<open>
  \<open>specRelevance q n ty\<close> is the specification's sum for a query \<open>q\<close> and a name
  \<open>n\<close> as they are compared; \<open>statedRelevance\<close> applies it as the sentence reads,
  to the query and the name lower-cased and not changed otherwise.
\<close>

definition matchBonus :: "jsString \<Rightarrow> jsString \<Rightarrow> int" where
  "matchBonus q n =
     (if n = q then 1000 else if startsWith n q then 100 else if includesStr n q then 50 else 0)"

definition wordPairBonus :: "jsString \<Rightarrow> jsString \<Rightarrow> int" where
  "wordPairBonus queryWord nameWord =
     (if queryWord = nameWord then 25
      else if includesStr nameWord queryWord \<or> includesStr queryWord nameWord then 10
      else 0)"

definition categoryBonus :: "itemType \<Rightarrow> int" where
  "categoryBonus type = (case type of Track \<Rightarrow> 5 | Artist \<Rightarrow> 3 | Album \<Rightarrow> 2 | Playlist \<Rightarrow> 1)"

definition specRelevance :: "jsString \<Rightarrow> jsString \<Rightarrow> itemType \<Rightarrow> int" where
  "specRelevance q n type =
     matchBonus q n
     + (\<Sum>queryWord \<leftarrow> wordsOf q. \<Sum>nameWord \<leftarrow> wordsOf n. wordPairBonus queryWord nameWord)
     + categoryBonus type"

definition statedRelevance :: "lowerCasing \<Rightarrow> jsString \<Rightarrow> jsString \<Rightarrow> itemType \<Rightarrow> int" where
  "statedRelevance toLowerCase query nm ty =
     specRelevance (toLowerCase query) (toLowerCase nm) ty"

section \<open>Numbers\<close>

text \<open>
  A JavaScript number is an IEEE 754 double: \<open>NaN\<close>, an infinity, or a finite value,
  which is a rational \<open>m * 2^e\<close> with \<open>\<bar>m\<bar> < 2^53\<close> and
  \<open>-1074 \<le> e \<le> 971\<close>. The sign of a zero is dropped: no operation used here
  reads it. The search aggregator computes relevance scores, the media resolver its
  duration window, in these numbers.
\<close>

datatype number = NaN | NegInfinity | Finite rat | PosInfinity

text \<open>
  Rounding to the nearest double, ties to the even significand. \<open>floorLog2 x\<close> is the
  exponent of the binade of a positive \<open>x\<close> (\<open>2^k \<le> x < 2^(k+1)\<close>); the unit in
  the last place is 52 binary places below it, and never below \<open>2^-1074\<close> (the
  subnormals). A rounded value of magnitude \<open>2^1024\<close> or more (of a binade from
  1024 on) is an infinity.
\<close>

definition floorLog2 :: "rat \<Rightarrow> int" where
  "floorLog2 x =
     (if 1 \<le> x then bitlen \<lfloor>x\<rfloor> - 1 else - bitlen (\<lceil>1 / x\<rceil> - 1))"

definition roundHalfEven :: "rat \<Rightarrow> int" where
  "roundHalfEven x =
     (let n = \<lfloor>x\<rfloor>; r = x - of_int n in
      if r < 1 / 2 then n else if 1 / 2 < r then n + 1 else if even n then n else n + 1)"

definition roundDouble :: "rat \<Rightarrow> number" where
  "roundDouble x =
     (if x = 0 then Finite 0
      else
        (let e = max (floorLog2 \<bar>x\<bar> - 52) (- 1074);
             y = of_int (roundHalfEven (x / 2 powi e)) * 2 powi e
         in if y = 0 \<or> floorLog2 \<bar>y\<bar> < 1024 then Finite y
            else if 0 < y then PosInfinity
            else NegInfinity))"

text \<open>
  The operations: each gives the double nearest the exact result, and follows IEEE 754 on
  \<open>NaN\<close> and the infinities. \<open>numDividedBy a d\<close> is \<open>a / d\<close> for a divisor
  \<open>d\<close> that is a finite double other than 0 (the function divides by the literal
  1000 only).
\<close>

fun numNeg :: "number \<Rightarrow> number" where
  "numNeg NaN = NaN"
| "numNeg NegInfinity = PosInfinity"
| "numNeg PosInfinity = NegInfinity"
| "numNeg (Finite x) = Finite (- x)"

fun numPlus :: "number \<Rightarrow> number \<Rightarrow> number" where
  "numPlus NaN b = NaN"
| "numPlus a NaN = NaN"
| "numPlus (Finite x) (Finite y) = roundDouble (x + y)"
| "numPlus (Finite x) b = b"
| "numPlus a (Finite y) = a"
| "numPlus a b = (if a = b then a else NaN)"

definition numMinus :: "number \<Rightarrow> number \<Rightarrow> number" where
  "numMinus a b = numPlus a (numNeg b)"

fun numTimes :: "number \<Rightarrow> number \<Rightarrow> number" where
  "numTimes NaN b = NaN"
| "numTimes a NaN = NaN"
| "numTimes (Finite x) (Finite y) = roundDouble (x * y)"
| "numTimes (Finite x) b = (if x = 0 then NaN else if 0 < x then b else numNeg b)"
| "numTimes a (Finite y) = (if y = 0 then NaN else if 0 < y then a else numNeg a)"
| "numTimes a b = (if a = b then PosInfinity else NegInfinity)"

fun numDividedBy :: "number \<Rightarrow> rat \<Rightarrow> number" where
  "numDividedBy NaN d = NaN"
| "numDividedBy (Finite x) d = roundDouble (x / d)"
| "numDividedBy a d = (if 0 < d then a else numNeg a)"

text \<open>
  \<open>a <= b\<close> and \<open>a >= b\<close>: false when either is \<open>NaN\<close>.
  \<open>numNotSame a b\<close> is \<open>a !== b\<close> (true when either is \<open>NaN\<close>), and
  \<open>numPositive a\<close> is \<open>a > 0\<close>.
\<close>

fun numLe :: "number \<Rightarrow> number \<Rightarrow> bool" where
  "numLe NaN b = False"
| "numLe a NaN = False"
| "numLe (Finite x) (Finite y) = (x \<le> y)"
| "numLe NegInfinity b = True"
| "numLe a PosInfinity = True"
| "numLe a b = False"

definition numGe :: "number \<Rightarrow> number \<Rightarrow> bool" where
  "numGe a b = numLe b a"

definition numNotSame :: "number \<Rightarrow> number \<Rightarrow> bool" where
  "numNotSame a b = (a = NaN \<or> b = NaN \<or> a \<noteq> b)"

definition numPositive :: "number \<Rightarrow> bool" where
  "numPositive a = (case a of PosInfinity \<Rightarrow> True | Finite x \<Rightarrow> 0 < x | _ \<Rightarrow> False)"

text \<open>\<open>Math.min\<close> and \<open>Math.max\<close> of two numbers.\<close>

fun numMin :: "number \<Rightarrow> number \<Rightarrow> number" where
  "numMin NaN b = NaN"
| "numMin a NaN = NaN"
| "numMin a b = (if numLe a b then a else b)"

fun numMax :: "number \<Rightarrow> number \<Rightarrow> number" where
  "numMax NaN b = NaN"
| "numMax a NaN = NaN"
| "numMax a b = (if numLe a b then b else a)"

section \<open>The search aggregator (\<open>searchMultiType\<close>)\<close>

subsection \<open>The provider's raw hits\<close>

text \<open>
  The fields of the provider's JSON that \<open>searchMultiType\<close> reads. \<open>artists\<close> holds
  the artists' names in the provider's order; popularity, duration and follower counts are
  integers. A category absent from the response (\<open>data.tracks\<close> or its \<open>items\<close>
  missing) is \<open>None\<close>.
\<close>

record rawTrack =
  track_name :: jsString
  track_artists :: "jsString list"
  track_id :: jsString
  duration_ms :: int
  track_popularity :: int

record rawArtist =
  artist_name :: jsString
  artist_id :: jsString
  artist_followers :: "int option"
  artist_popularity :: "int option"

record rawAlbum =
  album_name :: jsString
  album_artists :: "jsString list"
  album_id :: jsString

record rawPlaylist =
  playlist_name :: jsString
  playlist_description :: "jsString option"
  playlist_id :: jsString

record searchData =
  data_tracks :: "rawTrack list option"
  data_artists :: "rawArtist list option"
  data_albums :: "rawAlbum list option"
  data_playlists :: "rawPlaylist list option"

subsection \<open>Normalized items\<close>

text \<open>
  One record for the four shapes of result the function pushes: \<open>popularity\<close> is
  \<open>None\<close> where the pushed object has no such property (albums, playlists), and so is
  \<open>followers\<close> (everything but artists). Display-only properties (album, image, genres,
  release date, owner, counts) are left out: no decision of the function reads them.
  \<open>relevance\<close> is a JavaScript number; the scores \<open>calculateRelevance\<close>
  gives are whole numbers (far below \<open>2^53\<close>), and their weighted sums are
  rounded as the source rounds them.
\<close>

record item =
  itype :: itemType
  name :: jsString
  artist :: jsString
  spotify_id :: jsString
  relevance :: number
  popularity :: "int option"
  followers :: "int option"

record byType =
  tracks :: "item list"
  artists :: "item list"
  albums :: "item list"
  playlists :: "item list"

subsection \<open>Track deduplication\<close>

text \<open>\<open>track.artists[0]?.name.toLowerCase() || ''\<close>\<close>

definition firstArtistLower :: "lowerCasing \<Rightarrow> jsString list \<Rightarrow> jsString" where
  "firstArtistLower toLowerCase as = (case as of [] \<Rightarrow> [] | a # _ \<Rightarrow> toLowerCase a)"

text \<open>The template string \<open>`${name}|${artist}`\<close>.\<close>

definition trackKey :: "lowerCasing \<Rightarrow> rawTrack \<Rightarrow> jsString" where
  "trackKey toLowerCase track =
     toLowerCase (track_name track) @ str ''|''
       @ firstArtistLower toLowerCase (track_artists track)"

text \<open>
  \<open>groupedTracks\<close> is a \<open>Map\<close>: it keeps its keys in the order of their first
  insertion, so it is an association list here. One step of the \<open>forEach\<close>:
\<close>

definition addToGroup :: "lowerCasing \<Rightarrow> (jsString \<times> rawTrack list) list \<Rightarrow> rawTrack \<Rightarrow> (jsString \<times> rawTrack list) list" where
  "addToGroup toLowerCase groupedTracks track =
     (let key = trackKey toLowerCase track in
      if key \<in> set (map fst groupedTracks)
      then map (\<lambda>(k, g). if k = key then (k, g @ [track]) else (k, g)) groupedTracks
      else groupedTracks @ [(key, [track])])"

definition groupTracks :: "lowerCasing \<Rightarrow> rawTrack list \<Rightarrow> (jsString \<times> rawTrack list) list" where
  "groupTracks toLowerCase items = foldl (addToGroup toLowerCase) [] items"

text \<open>The callback of \<open>trackGroup.reduce\<close>.\<close>

definition pickBetter :: "rawTrack \<Rightarrow> rawTrack \<Rightarrow> rawTrack" where
  "pickBetter prev current =
     (if track_popularity current > track_popularity prev then current
      else if track_popularity current = track_popularity prev
              \<and> \<bar>duration_ms current - 210000\<bar> < \<bar>duration_ms prev - 210000\<bar>
           then current
      else prev)"

text \<open>
  \<open>bestTrack\<close> of a group: its first hit, replaced by the \<open>reduce\<close> over the group
  when the group has more than one hit (\<open>reduce\<close> without an initial value starts from
  the first element). A group is never empty; the model answers \<open>None\<close> there.
\<close>

definition bestTrack :: "rawTrack list \<Rightarrow> rawTrack option" where
  "bestTrack trackGroup =
     (case trackGroup of
        [] \<Rightarrow> None
      | first # rest \<Rightarrow>
          Some (if length trackGroup > 1 then foldl pickBetter first rest else first))"

text \<open>\<open>artists.map(artist => artist.name).join(', ')\<close>\<close>

fun joinNames :: "jsString list \<Rightarrow> jsString" where
  "joinNames [] = []"
| "joinNames [a] = a"
| "joinNames (a # b # rest) = a @ str '', '' @ joinNames (b # rest)"

text \<open>\<open>artists[0]?.name || ''\<close>\<close>

definition firstArtistName :: "jsString list \<Rightarrow> jsString" where
  "firstArtistName as = (case as of [] \<Rightarrow> [] | a # _ \<Rightarrow> a)"

text \<open>
  The pushed object. The literals \<open>0.5\<close>, \<open>0.3\<close> and \<open>0.2\<close> of
  the weighted sums are the doubles nearest to these decimals.
\<close>

definition trackItem :: "lowerCasing \<Rightarrow> jsString \<Rightarrow> rawTrack \<Rightarrow> item" where
  "trackItem toLowerCase queryLower t =
     \<lparr> itype = Track, name = track_name t, artist = joinNames (track_artists t),
       spotify_id = track_id t,
       relevance =
         numPlus (Finite (of_int (calculateRelevance toLowerCase queryLower (track_name t) Track)))
           (numTimes (Finite (of_int (calculateRelevance toLowerCase queryLower
                                         (firstArtistName (track_artists t)) Artist)))
              (roundDouble (5 / 10))),
       popularity = Some (track_popularity t), followers = None \<rparr>"

definition processTracks :: "lowerCasing \<Rightarrow> jsString \<Rightarrow> rawTrack list \<Rightarrow> item list" where
  "processTracks toLowerCase queryLower items =
     List.map_filter
       (\<lambda>(key, trackGroup). map_option (trackItem toLowerCase queryLower) (bestTrack trackGroup))
       (groupTracks toLowerCase items)"

subsection \<open>The other three categories\<close>

text \<open>\<open>x || 0\<close> on a number that may be missing.\<close>

definition orZero :: "int option \<Rightarrow> int" where
  "orZero x = (case x of None \<Rightarrow> 0 | Some n \<Rightarrow> n)"

definition artistItem :: "lowerCasing \<Rightarrow> jsString \<Rightarrow> rawArtist \<Rightarrow> item" where
  "artistItem toLowerCase queryLower a =
     \<lparr> itype = Artist, name = artist_name a, artist = [], spotify_id = artist_id a,
       relevance = Finite (of_int (calculateRelevance toLowerCase queryLower (artist_name a) Artist)),
       popularity = Some (orZero (artist_popularity a)),
       followers = Some (orZero (artist_followers a)) \<rparr>"

definition albumItem :: "lowerCasing \<Rightarrow> jsString \<Rightarrow> rawAlbum \<Rightarrow> item" where
  "albumItem toLowerCase queryLower a =
     \<lparr> itype = Album, name = album_name a, artist = joinNames (album_artists a),
       spotify_id = album_id a,
       relevance =
         numPlus (Finite (of_int (calculateRelevance toLowerCase queryLower (album_name a) Album)))
           (numTimes (Finite (of_int (calculateRelevance toLowerCase queryLower
                                         (firstArtistName (album_artists a)) Artist)))
              (roundDouble (3 / 10))),
       popularity = None, followers = None \<rparr>"

definition playlistItem :: "lowerCasing \<Rightarrow> jsString \<Rightarrow> rawPlaylist \<Rightarrow> item" where
  "playlistItem toLowerCase queryLower p =
     \<lparr> itype = Playlist, name = playlist_name p, artist = [], spotify_id = playlist_id p,
       relevance =
         numPlus (Finite (of_int (calculateRelevance toLowerCase queryLower (playlist_name p) Playlist)))
           (numTimes (Finite (of_int (calculateRelevance toLowerCase queryLower
                                         (case playlist_description p of None \<Rightarrow> [] | Some d \<Rightarrow> d)
                                         Playlist)))
              (roundDouble (2 / 10))),
       popularity = None, followers = None \<rparr>"

subsection \<open>Sorting\<close>

text \<open>
  \<open>Array.prototype.sort\<close> with a comparator is stable; it is modelled as the stable
  insertion sort driven by the comparator's sign: \<open>a\<close> stays before \<open>b\<close>
  unless \<open>cmp a b\<close> is positive (\<open>sort\<close> takes a \<open>NaN\<close> for 0).
\<close>

fun insertBy :: "('a \<Rightarrow> 'a \<Rightarrow> number) \<Rightarrow> 'a \<Rightarrow> 'a list \<Rightarrow> 'a list" where
  "insertBy cmp x [] = [x]"
| "insertBy cmp x (y # ys) =
     (if \<not> numPositive (cmp x y) then x # y # ys else y # insertBy cmp x ys)"

definition sortBy :: "('a \<Rightarrow> 'a \<Rightarrow> number) \<Rightarrow> 'a list \<Rightarrow> 'a list" where
  "sortBy cmp xs = foldr (insertBy cmp) xs []"

text \<open>
  The comparator of the per-category sort; a property that is \<open>None\<close> is
  \<open>undefined\<close>, and the counts are whole numbers.
\<close>

definition categoryCmp :: "item \<Rightarrow> item \<Rightarrow> number" where
  "categoryCmp a b =
     (if numNotSame (relevance b) (relevance a) then numMinus (relevance b) (relevance a)
      else (case (popularity a, popularity b) of
              (Some pa, Some pb) \<Rightarrow> numMinus (Finite (of_int pb)) (Finite (of_int pa))
            | _ \<Rightarrow> (case (followers a, followers b) of
                      (Some fa, Some fb) \<Rightarrow> numMinus (Finite (of_int fb)) (Finite (of_int fa))
                    | _ \<Rightarrow> Finite 0)))"

text \<open>The comparator of the final sort: \<open>(a, b) => b.relevance - a.relevance\<close>.\<close>

definition relevanceCmp :: "item \<Rightarrow> item \<Rightarrow> number" where
  "relevanceCmp a b = numMinus (relevance b) (relevance a)"

subsection \<open>Interleaving and truncation\<close>

text \<open>\<open>if (xs[i]) allResults.push(xs[i])\<close>: an item object is always truthy.\<close>

definition pushIfPresent :: "item list \<Rightarrow> nat \<Rightarrow> item list" where
  "pushIfPresent xs i = (if i < length xs then [xs ! i] else [])"

definition interleaveRow :: "byType \<Rightarrow> nat \<Rightarrow> item list" where
  "interleaveRow r i =
     pushIfPresent (tracks r) i @ pushIfPresent (artists r) i
     @ pushIfPresent (albums r) i @ pushIfPresent (playlists r) i"

text \<open>\<open>Math.ceil(limit / 4)\<close>; the limit is a count.\<close>

definition maxPerCategory :: "nat \<Rightarrow> nat" where
  "maxPerCategory limit = nat \<lceil>(of_nat limit :: rat) / 4\<rceil>"

definition interleave :: "nat \<Rightarrow> byType \<Rightarrow> item list" where
  "interleave limit r = concat (map (interleaveRow r) [0 ..< maxPerCategory limit])"

definition combinedResults :: "nat \<Rightarrow> byType \<Rightarrow> item list" where
  "combinedResults limit r = take limit (sortBy relevanceCmp (interleave limit r))"

subsection \<open>The function\<close>

text \<open>The one request the function sends, as the fields of its URL.\<close>

record searchRequest =
  req_q :: jsString
  req_types :: "itemType list"
  req_market :: string
  req_limit :: nat

definition searchLimit :: "nat \<Rightarrow> nat" where
  "searchLimit limit = min limit 50"

definition searchRequestOf :: "jsString \<Rightarrow> nat \<Rightarrow> searchRequest" where
  "searchRequestOf query limit =
     \<lparr> req_q = query, req_types = [Track, Artist, Album, Playlist], req_market = ''IT'',
       req_limit = searchLimit limit \<rparr>"

definition orEmpty :: "'a list option \<Rightarrow> 'a list" where
  "orEmpty xs = (case xs of None \<Rightarrow> [] | Some ys \<Rightarrow> ys)"

definition resultsByType :: "lowerCasing \<Rightarrow> jsString \<Rightarrow> searchData \<Rightarrow> byType" where
  "resultsByType toLowerCase query data =
     (let queryLower = queryLowerOf toLowerCase query in
      \<lparr> tracks = sortBy categoryCmp
                   (processTracks toLowerCase queryLower (orEmpty (data_tracks data))),
        artists = sortBy categoryCmp
                    (map (artistItem toLowerCase queryLower) (orEmpty (data_artists data))),
        albums = sortBy categoryCmp
                   (map (albumItem toLowerCase queryLower) (orEmpty (data_albums data))),
        playlists = sortBy categoryCmp
                      (map (playlistItem toLowerCase queryLower) (orEmpty (data_playlists data))) \<rparr>)"

record searchOutcome =
  results :: "item list"
  by_type :: byType

datatype apiError = ApiError nat string

text \<open>
  \<open>api\<close> is \<open>_makeApiRequest\<close>: it answers the request with the provider's data or
  throws. The \<open>catch\<close> of \<open>searchMultiType\<close> turns a throw into the
  \<open>success: false\<close> object (\<open>Inl\<close> here).
\<close>

definition searchMultiType :: "lowerCasing \<Rightarrow> (searchRequest \<Rightarrow> apiError + searchData) \<Rightarrow> jsString \<Rightarrow> nat \<Rightarrow> apiError + searchOutcome" where
  "searchMultiType toLowerCase api query limit =
     (case api (searchRequestOf query limit) of
        Inl err \<Rightarrow> Inl err
      | Inr data \<Rightarrow>
          (let r = resultsByType toLowerCase query data in
           Inr \<lparr> results = combinedResults limit r, by_type = r \<rparr>))"

section \<open>The media resolver (\<open>searchAndDownload\<close>)\<close>

text \<open>
  One line of the index's output after \<open>JSON.parse\<close>: \<open>None\<close> for a blank or
  unparsable line, else the properties the function reads (a missing one is \<open>None\<close>).
  \<open>duration\<close> is the property when it is a number, in seconds.
\<close>

record rawVideo =
  webpage_url :: "string option"
  video_title :: "string option"
  uploader :: "string option"
  duration :: "number option"



text \<open>
  \<open>video.duration\<close> in a comparison: a property that is not a number compares as
  \<open>NaN\<close> does (a valid candidate has a number).
\<close>

definition durationOf :: "rawVideo \<Rightarrow> number" where
  "durationOf video = (case duration video of None \<Rightarrow> NaN | Some d \<Rightarrow> d)"

datatype mediaError =
    SearchFailed
  | NoValidVideo
  | NoDurationMatch nat
  | DownloadFailed
  | OutputMissing

text \<open>
  \<open>if (targetDurationMs)\<close>: the target is a number or missing (\<open>undefined\<close>,
  \<open>null\<close>: \<open>None\<close> here); a missing target, \<open>NaN\<close> and \<open>0\<close> are falsy.
  \<open>suppliedTarget\<close> is the target when the test passes.
\<close>

definition suppliedTarget :: "number option \<Rightarrow> number option" where
  "suppliedTarget targetDurationMs =
     (case targetDurationMs of
        None \<Rightarrow> None
      | Some t \<Rightarrow> if t = NaN \<or> t = Finite 0 then None else Some t)"

text \<open>\<open>targetDurationMs / 1000\<close>\<close>

definition targetSecondsOf :: "number \<Rightarrow> number" where
  "targetSecondsOf targetDurationMs = numDividedBy targetDurationMs 1000"

text \<open>The literal \<open>0.10\<close> is the double nearest to one tenth.\<close>

definition oneTenth :: number where
  "oneTenth = roundDouble (1 / 10)"

text \<open>\<open>Math.max(5, Math.min(15, targetSeconds * 0.10))\<close>\<close>

definition toleranceOf :: "number \<Rightarrow> number" where
  "toleranceOf targetSeconds =
     numMax (Finite 5) (numMin (Finite 15) (numTimes targetSeconds oneTenth))"

definition durationMatches :: "number \<Rightarrow> rawVideo \<Rightarrow> bool" where
  "durationMatches targetSeconds video =
     (let tolerance = toleranceOf targetSeconds;
          minDuration = numMinus targetSeconds tolerance;
          maxDuration = numPlus targetSeconds tolerance
      in numGe (durationOf video) minDuration \<and> numLe (durationOf video) maxDuration)"

text \<open>
  The selection among the valid candidates (the list is not empty when the function gets
  here): the \<open>for\<close> loop with its \<open>break\<close>, or the first candidate when no target
  is supplied.
\<close>

definition selectVideo :: "number option \<Rightarrow> rawVideo list \<Rightarrow> mediaError + rawVideo" where
  "selectVideo targetDurationMs videoMetadatas =
     (case suppliedTarget targetDurationMs of
        Some t \<Rightarrow>
          (case find (durationMatches (targetSecondsOf t)) videoMetadatas of
             Some video \<Rightarrow> Inr video
           | None \<Rightarrow> Inl (NoDurationMatch (length videoMetadatas)))
      | None \<Rightarrow>
          (case videoMetadatas of
             [] \<Rightarrow> Inl NoValidVideo
           | video # _ \<Rightarrow> Inr video))"





section \<open>The token lifecycle (\<open>setUserTokens\<close>, \<open>refreshUserAccessToken\<close>, \<open>getUserTokens\<close>)\<close>

text \<open>
  The Credential Record is \<open>session.tokens\<close>. Times are epoch milliseconds (integers).
  A string property that may be missing is an option; it is truthy when present and not
  empty.
\<close>

record tokens =
  accessToken :: string
  refreshToken :: "string option"
  expiresAt :: int
  scope :: "string option"

record session =
  session_id :: string
  session_tokens :: "tokens option"
  saves :: nat

record tokenData =
  access_token :: "string option"
  refresh_token :: "string option"
  expires_in :: int
  token_scope :: "string option"

text \<open>The string behind a property when the property is truthy.\<close>

definition truthyString :: "string option \<Rightarrow> string option" where
  "truthyString x = (case x of None \<Rightarrow> None | Some s \<Rightarrow> if s \<noteq> [] then Some s else None)"

definition truthy :: "string option \<Rightarrow> bool" where
  "truthy x = (truthyString x \<noteq> None)"

text \<open>
  What \<open>response.json()\<close> does with the body of an answer: it rejects (the body is
  not JSON, or cannot be read), or it gives \<open>null\<close>, or it gives a value, of which the
  function reads the properties of \<open>tokenData\<close> (a missing string property is
  \<open>None\<close>; a JSON number, string, boolean or array has none of them).
\<close>

datatype jsonBody = JsonRejects | JsonNull | JsonValue tokenData

text \<open>
  What \<open>fetch\<close> on the token endpoint does: it throws (network), or answers with a
  status and a body. \<open>response.ok\<close> is a status from 200 to 299.
\<close>

datatype fetchOutcome = FetchThrows | Response nat jsonBody

definition responseOk :: "nat \<Rightarrow> bool" where
  "responseOk status = (200 \<le> status \<and> status \<le> 299)"

datatype refreshError = NetworkError | HttpError nat | BodyError | NullBody | TokensGone

text \<open>
  The state the functions act on: the session object (\<open>None\<close> for a null session) and
  the log of refresh requests sent to the provider (the refresh token each carried).
\<close>

record authState =
  sess :: "session option"
  refreshCalls :: "string list"

definition setUserTokens :: "int \<Rightarrow> tokenData option \<Rightarrow> authState \<Rightarrow> authState" where
  "setUserTokens now td s =
     (case (sess s, td) of
        (Some session, Some tokenData) \<Rightarrow>
          (case truthyString (access_token tokenData) of
             None \<Rightarrow> s
           | Some token \<Rightarrow>
               s\<lparr> sess := Some (session\<lparr> session_tokens := Some
                      \<lparr> accessToken = token,
                        refreshToken = refresh_token tokenData,
                        expiresAt = now + expires_in tokenData * 1000,
                        scope = token_scope tokenData \<rparr>,
                      saves := saves session + 1 \<rparr>) \<rparr>)
      | _ \<Rightarrow> s)"

text \<open>
  An \<open>async\<close> function runs without interruption up to its first \<open>await\<close> that
  really waits. \<open>refreshUserAccessToken\<close> is therefore two pieces: up to the
  \<open>fetch\<close> (which sends the request), and from the provider's answer on. A piece
  either finishes the call (\<open>Done\<close>) or leaves it waiting for the provider with the
  local \<open>refreshToken\<close> it holds (\<open>Waiting\<close>). The later awaits (reading the
  body, \<open>setUserTokens\<close>) are taken into the second piece: the function changes
  nothing before the body has been read, and what follows the reading runs within one
  turn of the event loop.
\<close>

datatype 'a progress = Done 'a authState | Waiting string authState

definition refreshStart :: "authState \<Rightarrow> (refreshError + string option) progress" where
  "refreshStart s =
     (case sess s of
        None \<Rightarrow> Done (Inr None) s
      | Some session \<Rightarrow>
          (case session_tokens session of
             None \<Rightarrow> Done (Inr None) (s\<lparr> sess := Some (session\<lparr> session_tokens := None \<rparr>) \<rparr>)
           | Some tk \<Rightarrow>
               (case truthyString (refreshToken tk) of
                  None \<Rightarrow> Done (Inr None) (s\<lparr> sess := Some (session\<lparr> session_tokens := None \<rparr>) \<rparr>)
                | Some refreshTok \<Rightarrow>
                    Waiting refreshTok (s\<lparr> refreshCalls := refreshCalls s @ [refreshTok] \<rparr>))))"

text \<open>\<open>delete session.tokens; session.save()\<close>\<close>

definition deleteTokens :: "authState \<Rightarrow> authState" where
  "deleteTokens s =
     (case sess s of
        None \<Rightarrow> s
      | Some session \<Rightarrow>
          s\<lparr> sess := Some (session\<lparr> session_tokens := None, saves := saves session + 1 \<rparr>) \<rparr>)"

text \<open>\<open>newTokenData.refresh_token || refreshToken\<close>\<close>

definition withRefreshToken :: "string \<Rightarrow> tokenData \<Rightarrow> tokenData" where
  "withRefreshToken refreshTok newTokenData =
     newTokenData\<lparr> refresh_token :=
       (if truthy (refresh_token newTokenData) then refresh_token newTokenData else Some refreshTok) \<rparr>"

text \<open>
  The second piece. On a status that is not a success the function first awaits
  \<open>response.json().catch(() => response.text())\<close>: when \<open>json()\<close> rejects,
  the body has been consumed, so \<open>text()\<close> rejects too (body used already) and the
  function leaves through its \<open>catch\<close> before it has tested the status. On a
  success, \<open>null\<close> for a body makes \<open>newTokenData.refresh_token\<close> throw.
\<close>

definition refreshResume :: "int \<Rightarrow> string \<Rightarrow> fetchOutcome \<Rightarrow> authState \<Rightarrow> (refreshError + string option) \<times> authState" where
  "refreshResume now refreshTok outcome s =
     (case outcome of
        FetchThrows \<Rightarrow> (Inl NetworkError, s)
      | Response status body \<Rightarrow>
          if \<not> responseOk status
          then (case body of
                  JsonRejects \<Rightarrow> (Inl BodyError, s)
                | _ \<Rightarrow>
                    (Inl (HttpError status),
                     if status = 400 \<or> status = 401 then deleteTokens s else s))
          else (case body of
                  JsonRejects \<Rightarrow> (Inl BodyError, s)
                | JsonNull \<Rightarrow> (Inl NullBody, s)
                | JsonValue newTokenData \<Rightarrow>
                    (let s' = setUserTokens now (Some (withRefreshToken refreshTok newTokenData)) s in
                     case sess s' of
                       None \<Rightarrow> (Inl TokensGone, s')
                     | Some session \<Rightarrow>
                         (case session_tokens session of
                            None \<Rightarrow> (Inl TokensGone, s')
                          | Some tk \<Rightarrow> (Inr (Some (accessToken tk)), s')))))"

definition refreshUserAccessToken :: "int \<Rightarrow> fetchOutcome \<Rightarrow> authState \<Rightarrow> (refreshError + string option) \<times> authState" where
  "refreshUserAccessToken now outcome s =
     (case refreshStart s of
        Done r s' \<Rightarrow> (r, s')
      | Waiting refreshTok s' \<Rightarrow> refreshResume now refreshTok outcome s')"

text \<open>\<open>session.tokens\<close>, as the caller reads it.\<close>

definition currentTokens :: "authState \<Rightarrow> tokens option" where
  "currentTokens s = (case sess s of None \<Rightarrow> None | Some session \<Rightarrow> session_tokens session)"

text \<open>
  \<open>getUserTokens\<close>, in the same two pieces. \<open>now\<close> is \<open>Date.now()\<close> at the expiry
  test; the \<open>Date.now()\<close> of \<open>setUserTokens\<close> is the argument of the second piece.
\<close>

definition getUserTokensStart :: "int \<Rightarrow> authState \<Rightarrow> (tokens option) progress" where
  "getUserTokensStart now s =
     (case sess s of
        None \<Rightarrow> Done None s
      | Some session \<Rightarrow>
          (case session_tokens session of
             None \<Rightarrow> Done None s
           | Some tk \<Rightarrow>
               if expiresAt tk \<le> now + 60000
               then (case refreshStart s of
                       Done (Inl refreshError) s' \<Rightarrow> Done None s'
                     | Done (Inr newAccessToken) s' \<Rightarrow>
                         if \<not> truthy newAccessToken then Done None s'
                         else Done (currentTokens s') s'
                     | Waiting refreshTok s' \<Rightarrow> Waiting refreshTok s')
               else Done (Some tk) s))"

definition getUserTokensResume :: "int \<Rightarrow> string \<Rightarrow> fetchOutcome \<Rightarrow> authState \<Rightarrow> tokens option \<times> authState" where
  "getUserTokensResume now refreshTok outcome s =
     (case refreshResume now refreshTok outcome s of
        (Inl refreshError, s') \<Rightarrow> (None, s')
      | (Inr newAccessToken, s') \<Rightarrow>
          if \<not> truthy newAccessToken then (None, s') else (currentTokens s', s'))"

definition getUserTokens :: "int \<Rightarrow> int \<Rightarrow> fetchOutcome \<Rightarrow> authState \<Rightarrow> tokens option \<times> authState" where
  "getUserTokens now now' outcome s =
     (case getUserTokensStart now s of
        Done r s' \<Rightarrow> (r, s')
      | Waiting refreshTok s' \<Rightarrow> getUserTokensResume now' refreshTok outcome s')"

subsection \<open>Several calls in flight\<close>

text \<open>
  The event loop runs one piece at a time. An event is a caller entering
  \<open>getUserTokens\<close> (at a clock reading) or the provider's answer reaching a waiting
  caller. \<open>waiting\<close> holds the callers whose refresh request is in flight, with the
  refresh token each sent; \<open>returned\<close> what each finished call returned.
\<close>

datatype event = Call nat int | Answer nat int fetchOutcome

record loopState =
  auth :: authState
  waiting :: "(nat \<times> string) list"
  returned :: "(nat \<times> tokens option) list"

definition stepEvent :: "loopState \<Rightarrow> event \<Rightarrow> loopState" where
  "stepEvent w e =
     (case e of
        Call caller now \<Rightarrow>
          (case getUserTokensStart now (auth w) of
             Done r s' \<Rightarrow> w\<lparr> auth := s', returned := returned w @ [(caller, r)] \<rparr>
           | Waiting refreshTok s' \<Rightarrow> w\<lparr> auth := s', waiting := waiting w @ [(caller, refreshTok)] \<rparr>)
      | Answer caller now outcome \<Rightarrow>
          (case map_of (waiting w) caller of
             None \<Rightarrow> w
           | Some refreshTok \<Rightarrow>
               (case getUserTokensResume now refreshTok outcome (auth w) of
                  (r, s') \<Rightarrow>
                    w\<lparr> auth := s',
                       waiting := filter (\<lambda>(c, t). c \<noteq> caller) (waiting w),
                       returned := returned w @ [(caller, r)] \<rparr>)))"

definition runEvents :: "loopState \<Rightarrow> event list \<Rightarrow> loopState" where
  "runEvents w es = foldl stepEvent w es"

definition initialLoop :: "authState \<Rightarrow> loopState" where
  "initialLoop s = \<lparr> auth = s, waiting = [], returned = [] \<rparr>"

section \<open>The read-through cache (\<open>_getWithCache\<close>)\<close>

datatype json =
    JNull
  | JBool bool
  | JNum int
  | JStr string
  | JArr "json list"
  | JObj "(string \<times> json) list"

text \<open>A payload with \<open>success: false\<close>.\<close>

definition explicitFailure :: "json \<Rightarrow> bool" where
  "explicitFailure v =
     (case v of JObj kvs \<Rightarrow> map_of kvs ''success'' = Some (JBool False) | _ \<Rightarrow> False)"

text \<open>
  The text under a key of the backend: what \<open>JSON.stringify\<close> made of a value
  (\<open>JSON.parse\<close> gives the value back), or some other text, which \<open>JSON.parse\<close>
  rejects; the empty text is falsy. Each entry carries its TTL in seconds.
\<close>

datatype cachedText = Stringified json | OtherText string

record cacheState =
  store :: "string \<rightharpoonup> (cachedText \<times> nat)"
  fetcherCalls :: nat

record cacheEnv =
  get_throws :: bool
  set_throws :: bool

text \<open>
  The compute function is effectful: \<open>fetcher n\<close> is what its invocation number \<open>n\<close>
  (from 0) does, a throw (\<open>Inl\<close>) or a value.
\<close>

definition callFetcher :: "(nat \<Rightarrow> string + json) \<Rightarrow> cacheState \<Rightarrow> (string + json) \<times> cacheState" where
  "callFetcher fetcher w = (fetcher (fetcherCalls w), w\<lparr> fetcherCalls := fetcherCalls w + 1 \<rparr>)"

text \<open>The part of the \<open>try\<close> block after a miss.\<close>

definition computeAndStore :: "cacheEnv \<Rightarrow> string \<Rightarrow> (nat \<Rightarrow> string + json) \<Rightarrow> nat \<Rightarrow> cacheState \<Rightarrow> (string + json) \<times> cacheState" where
  "computeAndStore env cacheKey fetcher ttlSeconds w =
     (case callFetcher fetcher w of
        (Inl err, w1) \<Rightarrow> callFetcher fetcher w1
      | (Inr freshData, w1) \<Rightarrow>
          if set_throws env then callFetcher fetcher w1
          else (Inr freshData,
                w1\<lparr> store := (store w1)(cacheKey \<mapsto> (Stringified freshData, ttlSeconds)) \<rparr>))"

definition getWithCache :: "cacheEnv \<Rightarrow> string \<Rightarrow> (nat \<Rightarrow> string + json) \<Rightarrow> nat \<Rightarrow> cacheState \<Rightarrow> (string + json) \<times> cacheState" where
  "getWithCache env cacheKey fetcher ttlSeconds w =
     (if get_throws env then callFetcher fetcher w
      else (case store w cacheKey of
              None \<Rightarrow> computeAndStore env cacheKey fetcher ttlSeconds w
            | Some (Stringified v, ttl) \<Rightarrow> (Inr v, w)
            | Some (OtherText text, ttl) \<Rightarrow>
                if text = [] then computeAndStore env cacheKey fetcher ttlSeconds w
                else callFetcher fetcher w))"

subsection \<open>The other copy of \<open>_getWithCache\<close> in the repository\<close>

text \<open>
  The class is in the repository a second time (in the text of
  \<open>src/core/youtube.js\<close>, after the resolver). Its \<open>_getWithCache\<close> keeps the read
  and the write in \<open>try\<close> blocks of their own, calls the compute function outside
  them, and carries the line commented ``do not cache explicit error answers''.
\<close>

definition truthyJson :: "json \<Rightarrow> bool" where
  "truthyJson v =
     (case v of JNull \<Rightarrow> False | JBool b \<Rightarrow> b | JNum n \<Rightarrow> n \<noteq> 0 | JStr s \<Rightarrow> s \<noteq> [] | _ \<Rightarrow> True)"

definition getWithCacheGuarded :: "cacheEnv \<Rightarrow> string \<Rightarrow> (nat \<Rightarrow> string + json) \<Rightarrow> nat \<Rightarrow> cacheState \<Rightarrow> (string + json) \<times> cacheState" where
  "getWithCacheGuarded env key fetcher ttlSeconds w =
     (case (if get_throws env then None
            else (case store w key of
                    Some (Stringified v, ttl) \<Rightarrow> Some v
                  | _ \<Rightarrow> None)) of
        Some v \<Rightarrow> (Inr v, w)
      | None \<Rightarrow>
          (case callFetcher fetcher w of
             (Inl err, w1) \<Rightarrow> (Inl err, w1)
           | (Inr freshData, w1) \<Rightarrow>
               if truthyJson freshData \<and> \<not> explicitFailure freshData \<and> \<not> set_throws env
               then (Inr freshData,
                     w1\<lparr> store := (store w1)(key \<mapsto> (Stringified freshData, ttlSeconds)) \<rparr>)
               else (Inr freshData, w1)))"

section \<open>Predicates and fixtures of the statements\<close>

text \<open>
  On a string whose code units are all below U+0080, every version of the Unicode tables
  lower-cases the letters A to Z and changes nothing else. \<open>lowersBasicLatin\<close> says
  this of a lower-casing; \<open>lowerBasicLatin\<close> is the lower-casing that does so on
  every string, and stands for the platform's at the examples, whose strings are all of
  that kind.
\<close>

definition lowerBasicLatinUnit :: "codeUnit \<Rightarrow> codeUnit" where
  "lowerBasicLatinUnit u = (if 0x0041 \<le> u \<and> u \<le> 0x005A then u + 0x0020 else u)"

definition lowerBasicLatin :: lowerCasing where
  "lowerBasicLatin s = map lowerBasicLatinUnit s"

definition basicLatin :: "jsString \<Rightarrow> bool" where
  "basicLatin s = (\<forall>u \<in> set s. u < 0x0080)"

definition lowersBasicLatin :: "lowerCasing \<Rightarrow> bool" where
  "lowersBasicLatin toLowerCase = (\<forall>s. basicLatin s \<longrightarrow> toLowerCase s = lowerBasicLatin s)"

text \<open>
  The finite doubles are multiples of \<open>2^-1074\<close>; \<open>doubleValued\<close> holds of
  such a finite value and of the infinities.
\<close>

definition gridUnit :: rat where
  "gridUnit = 2 powi (- 1074)"

definition onGrid :: "rat \<Rightarrow> bool" where
  "onGrid x = (\<exists>k :: int. x = of_int k * gridUnit)"

definition doubleValued :: "number \<Rightarrow> bool" where
  "doubleValued v = (case v of NaN \<Rightarrow> False | Finite x \<Rightarrow> onGrid x | _ \<Rightarrow> True)"

text \<open>
  The order the \<open>reduce\<close> callback realises: \<open>b\<close> is at least as good as \<open>a\<close>
  when it is more popular, or as popular and no further from 210000 ms.
\<close>

definition atLeastAsGood :: "rawTrack \<Rightarrow> rawTrack \<Rightarrow> bool" where
  "atLeastAsGood b a =
     (track_popularity a < track_popularity b
      \<or> (track_popularity a = track_popularity b
          \<and> \<bar>duration_ms b - 210000\<bar> \<le> \<bar>duration_ms a - 210000\<bar>))"

definition wellGrouped :: "lowerCasing \<Rightarrow> (jsString \<times> rawTrack list) list \<Rightarrow> bool" where
  "wellGrouped toLowerCase gs =
     (distinct (map fst gs)
      \<and> (\<forall>(k, g) \<in> set gs. g \<noteq> [] \<and> (\<forall>t \<in> set g. trackKey toLowerCase t = k)))"

text \<open>
  The lower-cased pair (track name, first artist name) of a hit, the first artist's name
  being empty when the hit has no artist.
\<close>

definition lowerPair :: "lowerCasing \<Rightarrow> rawTrack \<Rightarrow> jsString \<times> jsString" where
  "lowerPair toLowerCase track =
     (toLowerCase (track_name track), firstArtistLower toLowerCase (track_artists track))"

text \<open>The two hits of the deduplication example, and a provider that answers with them.\<close>

definition helloLong :: rawTrack where
  "helloLong = \<lparr> track_name = str ''Hello'', track_artists = [str ''Adele''],
                 track_id = str ''hello-295'', duration_ms = 295000, track_popularity = 80 \<rparr>"

definition helloShort :: rawTrack where
  "helloShort = \<lparr> track_name = str ''Hello'', track_artists = [str ''Adele''],
                  track_id = str ''hello-200'', duration_ms = 200000, track_popularity = 95 \<rparr>"

definition helloApi :: "searchRequest \<Rightarrow> apiError + searchData" where
  "helloApi request =
     Inr \<lparr> data_tracks = Some [helloLong, helloShort], data_artists = None,
           data_albums = None, data_playlists = None \<rparr>"

text \<open>
  Two hits of different pairs whose keys are the same string: "a|b" by "c" and "a" by
  "b|c"; and a provider that answers with them.
\<close>

definition barInName :: rawTrack where
  "barInName = \<lparr> track_name = str ''a|b'', track_artists = [str ''c''],
                 track_id = str ''bar-1'', duration_ms = 200000, track_popularity = 10 \<rparr>"

definition barInArtist :: rawTrack where
  "barInArtist = \<lparr> track_name = str ''a'', track_artists = [str ''b|c''],
                   track_id = str ''bar-2'', duration_ms = 200000, track_popularity = 20 \<rparr>"

definition barData :: searchData where
  "barData = \<lparr> data_tracks = Some [barInName, barInArtist], data_artists = None,
               data_albums = None, data_playlists = None \<rparr>"

definition barApi :: "searchRequest \<Rightarrow> apiError + searchData" where
  "barApi request = Inr barData"

text \<open>The list of a category, and the property that each list holds items of its category.\<close>

definition categoryOf :: "itemType \<Rightarrow> byType \<Rightarrow> item list" where
  "categoryOf ty r =
     (case ty of Track \<Rightarrow> tracks r | Artist \<Rightarrow> artists r | Album \<Rightarrow> albums r | Playlist \<Rightarrow> playlists r)"

definition wellTyped :: "byType \<Rightarrow> bool" where
  "wellTyped r = (\<forall>ty. \<forall>x \<in> set (categoryOf ty r). itype x = ty)"

text \<open>
  The fixture of the end-to-end example: the provider answers the request of
  \<open>searchMultiType "Queen" 8\<close> with 10 tracks, 5 artists, 3 albums and 2 playlists.
\<close>

definition queenTrack :: "string \<times> int \<Rightarrow> rawTrack" where
  "queenTrack p = \<lparr> track_name = str (fst p), track_artists = [str ''Queen''],
                    track_id = str (fst p), duration_ms = 210000, track_popularity = snd p \<rparr>"

definition queenArtist :: "string \<Rightarrow> rawArtist" where
  "queenArtist nm = \<lparr> artist_name = str nm, artist_id = str nm, artist_followers = Some 1000,
                      artist_popularity = Some 50 \<rparr>"

definition queenAlbum :: "string \<Rightarrow> rawAlbum" where
  "queenAlbum nm = \<lparr> album_name = str nm, album_artists = [str ''Queen''], album_id = str nm \<rparr>"

definition queenPlaylist :: "string \<Rightarrow> rawPlaylist" where
  "queenPlaylist nm = \<lparr> playlist_name = str nm, playlist_description = None,
                        playlist_id = str nm \<rparr>"

definition queenData :: searchData where
  "queenData =
     \<lparr> data_tracks = Some (map queenTrack
         [(''Bohemian Rhapsody'', 90), (''Queen Bee'', 40), (''Radio Ga Ga'', 80), (''Killer Queen'', 75),
          (''Under Pressure'', 85), (''Somebody to Love'', 82), (''Dancing Queen'', 88),
          (''Queen'', 30), (''Innuendo'', 60), (''Bicycle Race'', 65)]),
       data_artists = Some (map queenArtist
         [''Queen'', ''Queen Latifah'', ''Queens of the Stone Age'', ''Queensryche'', ''Adam Lambert'']),
       data_albums = Some (map queenAlbum [''A Night at the Opera'', ''Queen II'', ''Jazz'']),
       data_playlists = Some (map queenPlaylist [''This Is Queen'', ''Rock Classics'']) \<rparr>"

definition queenApi :: "searchRequest \<Rightarrow> apiError + searchData" where
  "queenApi request =
     (if request = searchRequestOf (str ''Queen'') 8 then Inr queenData
      else Inl (ApiError 400 ''unexpected request''))"

text \<open>A provider that answers only requests with a fetch limit of 8.\<close>

definition limitEightApi :: "searchRequest \<Rightarrow> apiError + searchData" where
  "limitEightApi request =
     (if req_limit request = 8 then queenApi request else Inl (ApiError 500 ''unavailable''))"

text \<open>
  A candidate of a finite duration (in seconds), the candidates of the duration example,
  and an index that lists them.
\<close>

definition candidate :: "string \<Rightarrow> rat \<Rightarrow> rawVideo" where
  "candidate url seconds =
     \<lparr> webpage_url = Some url, video_title = Some url, uploader = None,
       duration = Some (Finite seconds) \<rparr>"


text \<open>
  The outcomes of the provider call that the source answers by deleting the record: a
  status 400 or 401 whose body \<open>response.json()\<close> reads. And the other failures of
  a refresh: the network, a status that is neither a success nor 400 nor 401, a success
  whose body cannot be read or is \<open>null\<close>.
\<close>

definition rejectedByProvider :: "fetchOutcome \<Rightarrow> bool" where
  "rejectedByProvider outcome =
     (case outcome of
        FetchThrows \<Rightarrow> False
      | Response status body \<Rightarrow> (status = 400 \<or> status = 401) \<and> body \<noteq> JsonRejects)"

definition transientFailure :: "fetchOutcome \<Rightarrow> bool" where
  "transientFailure outcome =
     (case outcome of
        FetchThrows \<Rightarrow> True
      | Response status body \<Rightarrow>
          if responseOk status then body = JsonRejects \<or> body = JsonNull
          else status \<noteq> 400 \<and> status \<noteq> 401)"

text \<open>The client-error class of HTTP statuses.\<close>

definition clientErrorStatus :: "nat \<Rightarrow> bool" where
  "clientErrorStatus status = (400 \<le> status \<and> status \<le> 499)"

text \<open>
  The refresh token that a call of \<open>getUserTokens\<close> starting at \<open>now\<close> sends
  upstream: that of the record, when the session holds a record that is within the margin
  and has a refresh token.
\<close>

definition refreshDue :: "int \<Rightarrow> authState \<Rightarrow> string option" where
  "refreshDue now s =
     (case currentTokens s of
        None \<Rightarrow> None
      | Some tk \<Rightarrow> if expiresAt tk \<le> now + 60000 then truthyString (refreshToken tk) else None)"

text \<open>A session whose record expires at time 1000000, and the provider's good answer.\<close>

definition expiredTokens :: tokens where
  "expiredTokens = \<lparr> accessToken = ''old-access'', refreshToken = Some ''refresh-1'',
                     expiresAt = 1000000, scope = None \<rparr>"

definition expiredState :: authState where
  "expiredState =
     \<lparr> sess = Some \<lparr> session_id = ''sid'', session_tokens = Some expiredTokens, saves = 0 \<rparr>,
       refreshCalls = [] \<rparr>"

definition goodAnswer :: fetchOutcome where
  "goodAnswer = Response 200 (JsonValue \<lparr> access_token = Some ''new-access'', refresh_token = None,
                                          expires_in = 3600, token_scope = None \<rparr>)"

text \<open>The provider's JSON error object: it has none of the token properties.\<close>

definition errorBody :: jsonBody where
  "errorBody = JsonValue \<lparr> access_token = None, refresh_token = None, expires_in = 0,
                           token_scope = None \<rparr>"

text \<open>A miss, as the source tests it: no text under the key, or the empty text.\<close>

definition cacheMiss :: "cacheState \<Rightarrow> string \<Rightarrow> bool" where
  "cacheMiss w cacheKey =
     (case store w cacheKey of
        None \<Rightarrow> True
      | Some (Stringified v, ttl) \<Rightarrow> False
      | Some (OtherText text, ttl) \<Rightarrow> text = [])"

text \<open>An empty, healthy backend; a failure payload; compute functions of the examples.\<close>

definition emptyCache :: cacheState where
  "emptyCache = \<lparr> store = Map.empty, fetcherCalls = 0 \<rparr>"

definition healthy :: cacheEnv where
  "healthy = \<lparr> get_throws = False, set_throws = False \<rparr>"

definition failurePayload :: json where
  "failurePayload = JObj [(''success'', JBool False), (''message'', JStr ''Nessun risultato trovato'')]"

definition failingFetcher :: "nat \<Rightarrow> string + json" where
  "failingFetcher n = Inr failurePayload"

definition flakyFetcher :: "nat \<Rightarrow> string + json" where
  "flakyFetcher n = (if n = 0 then Inl ''timeout'' else Inr (JNum 7))"

definition brokenFetcher :: "nat \<Rightarrow> string + json" where
  "brokenFetcher n = (if n = 0 then Inl ''timeout'' else Inl ''still down'')"

section \<open>Theorems\<close>

subsection \<open>Relevance scoring\<close>

lemma foldl_scoreWordPair:
  "foldl (scoreWordPair qw) s nws = s + (\<Sum>nw \<leftarrow> nws. wordPairBonus qw nw)"
  by (induction nws arbitrary: s) (auto simp: scoreWordPair_def wordPairBonus_def)

lemma foldl_queryWords:
  "foldl (\<lambda>score qw. foldl (scoreWordPair qw) score nws) s qws
     = s + (\<Sum>qw \<leftarrow> qws. \<Sum>nw \<leftarrow> nws. wordPairBonus qw nw)"
  by (induction qws arbitrary: s) (auto simp: foldl_scoreWordPair)

lemma calculateRelevance_spec:
  "calculateRelevance lc q nm ty = specRelevance q (lc nm) ty"
  by (cases ty)
     (simp_all add: calculateRelevance_def specRelevance_def matchBonus_def categoryBonus_def
        foldl_queryWords Let_def)

lemma lowerBasicLatin_str:
  "lowerBasicLatin (str ''love'') = str ''love''"
  "lowerBasicLatin (str ''Love'') = str ''love''"
  "lowerBasicLatin (str ''I Love You'') = str ''i love you''"
  "lowerBasicLatin (str ''Lovely'') = str ''lovely''"
  "lowerBasicLatin (str ''Yesterday'') = str ''yesterday''"
  "lowerBasicLatin (str ''love '') = str ''love ''"
  "lowerBasicLatin (str '' love'') = str '' love''"
  by (simp_all add: lowerBasicLatin_def lowerBasicLatinUnit_def str_def)

lemma basicLatin_str:
  "basicLatin (str ''love'')" "basicLatin (str ''Love'')" "basicLatin (str ''I Love You'')"
  "basicLatin (str ''Lovely'')" "basicLatin (str ''Yesterday'')"
  by (simp_all add: basicLatin_def str_def)

lemma lowersBasicLatin_instance: "lowersBasicLatin lowerBasicLatin"
  by (simp add: lowersBasicLatin_def)

lemma love_spec:
  "specRelevance (trim (str ''love'')) (str ''love'') ty = 1025 + categoryBonus ty"
  "specRelevance (trim (str ''love'')) (str ''i love you'') ty = 75 + categoryBonus ty"
  "specRelevance (trim (str ''love'')) (str ''lovely'') ty = 110 + categoryBonus ty"
  "specRelevance (trim (str ''love'')) (str ''yesterday'') ty = categoryBonus ty"
  by (simp_all add: specRelevance_def trim_def isWhiteSpace_def whiteSpaceUnits_def wordsOf_def
      matchBonus_def startsWith_def wordPairBonus_def str_def)

lemma love_scores:
  assumes "lowersBasicLatin lc"
  shows "relevanceFor lc (str ''love'') (str ''Love'') ty = 1025 + categoryBonus ty"
    and "relevanceFor lc (str ''love'') (str ''I Love You'') ty = 75 + categoryBonus ty"
    and "relevanceFor lc (str ''love'') (str ''Lovely'') ty = 110 + categoryBonus ty"
    and "relevanceFor lc (str ''love'') (str ''Yesterday'') ty = categoryBonus ty"
proof -
  have l: "lc s = lowerBasicLatin s" if "basicLatin s" for s
    using assms that by (simp add: lowersBasicLatin_def)
  note v = l[OF basicLatin_str(1)] l[OF basicLatin_str(2)] l[OF basicLatin_str(3)]
    l[OF basicLatin_str(4)] l[OF basicLatin_str(5)]
  show "relevanceFor lc (str ''love'') (str ''Love'') ty = 1025 + categoryBonus ty"
    and "relevanceFor lc (str ''love'') (str ''I Love You'') ty = 75 + categoryBonus ty"
    and "relevanceFor lc (str ''love'') (str ''Lovely'') ty = 110 + categoryBonus ty"
    and "relevanceFor lc (str ''love'') (str ''Yesterday'') ty = categoryBonus ty"
    unfolding relevanceFor_def calculateRelevance_spec queryLowerOf_def v lowerBasicLatin_str
    by (rule love_spec)+
qed

text \<open>
  Beyond ASCII. Whenever the lower-casing takes the query and the name to the same string
  of one word without white space at its ends (as the platform's does with a name and its
  upper-case form, accented letters included), an artist of that name scores 1028. And
  \<open>trim\<close> strips the no-break space and the other Unicode white space.
\<close>

lemma same_lower_case_scores:
  assumes "toLowerCase query = toLowerCase nm" and "trim (toLowerCase nm) = toLowerCase nm"
    and "wordsOf (toLowerCase nm) = [toLowerCase nm]"
  shows "relevanceFor toLowerCase query nm Artist = 1028"
  unfolding relevanceFor_def calculateRelevance_spec queryLowerOf_def
  by (simp add: assms specRelevance_def matchBonus_def wordPairBonus_def categoryBonus_def)

lemma trim_unicode_space:
  "trim (str ''love'' @ [0x00A0]) = str ''love''"
  "trim ([0xFEFF, 0x2003] @ str ''love'' @ [0x3000, 0x2029, 0x000A]) = str ''love''"
  "trim (str ''love'' @ [0x200B]) = str ''love'' @ [0x200B]"
  by (simp_all add: trim_def isWhiteSpace_def whiteSpaceUnits_def str_def)

lemma categoryBonus_bounds: "1 \<le> categoryBonus ty \<and> categoryBonus ty \<le> 5"
  by (cases ty) (simp_all add: categoryBonus_def)

text \<open>
  C7, as stated, fails for a query with white space at an end, because the function trims
  the query (and not the name) before it compares. The name "Love" is no exact
  case-insensitive match of the query "love " (with a space at its end), does not start
  with it and does not contain it, so the stated sum is 30 for a track; the function
  scores 1030. And the name " love" is an exact match of the query " love" (both with a
  space in front), so the stated sum is 1030; the function scores 80.
\<close>

theorem padded_query_scores:
  "relevanceFor lowerBasicLatin (str ''love '') (str ''Love'') Track = 1030
   \<and> statedRelevance lowerBasicLatin (str ''love '') (str ''Love'') Track = 30
   \<and> lowerBasicLatin (str ''Love'') \<noteq> lowerBasicLatin (str ''love '')
   \<and> relevanceFor lowerBasicLatin (str '' love'') (str '' love'') Track = 80
   \<and> statedRelevance lowerBasicLatin (str '' love'') (str '' love'') Track = 1030
   \<and> lowerBasicLatin (str '' love'') = lowerBasicLatin (str '' love'')"
  unfolding relevanceFor_def statedRelevance_def calculateRelevance_spec queryLowerOf_def
    lowerBasicLatin_str
  by (simp add: specRelevance_def trim_def isWhiteSpace_def whiteSpaceUnits_def wordsOf_def
      matchBonus_def startsWith_def wordPairBonus_def categoryBonus_def str_def)

text \<open>
  C7, amended. For every query and candidate name, and whatever the platform's
  lower-casing: with the query lower-cased and trimmed of white space at both ends and the
  name lower-cased, \<open>calculateRelevance\<close> scores 1000 when the two are equal, else 100
  when the name starts with the query, else 50 when the name contains it; plus, over all
  pairs of a query word and a name word (the non-empty pieces between spaces), 25 for
  equal words and 10 when one contains the other; plus the category bonus (track 5,
  artist 3, album 2, playlist 1). For the query "love", the name "Love" scores strictly
  higher than "I Love You" and than "Lovely", and each of these strictly higher than the
  unrelated name "Yesterday", whatever the categories of the names compared (the
  lower-casing being that of the letters A to Z on these strings).
\<close>

theorem relevance_score_formula:
  "relevanceFor toLowerCase query nm ty =
     (let q = trim (toLowerCase query); n = toLowerCase nm in
        (if n = q then 1000 else if startsWith n q then 100 else if includesStr n q then 50 else 0)
        + (\<Sum>queryWord \<leftarrow> wordsOf q. \<Sum>nameWord \<leftarrow> wordsOf n.
             if queryWord = nameWord then 25
             else if includesStr nameWord queryWord \<or> includesStr queryWord nameWord then 10
             else 0)
        + (case ty of Track \<Rightarrow> 5 | Artist \<Rightarrow> 3 | Album \<Rightarrow> 2 | Playlist \<Rightarrow> 1))
   \<and> (lowersBasicLatin toLowerCase \<longrightarrow>
         relevanceFor toLowerCase (str ''love'') (str ''Love'') ty1
           > relevanceFor toLowerCase (str ''love'') (str ''I Love You'') ty2
         \<and> relevanceFor toLowerCase (str ''love'') (str ''Love'') ty1
           > relevanceFor toLowerCase (str ''love'') (str ''Lovely'') ty2
         \<and> relevanceFor toLowerCase (str ''love'') (str ''I Love You'') ty1
           > relevanceFor toLowerCase (str ''love'') (str ''Yesterday'') ty2
         \<and> relevanceFor toLowerCase (str ''love'') (str ''Lovely'') ty1
           > relevanceFor toLowerCase (str ''love'') (str ''Yesterday'') ty2)"
proof -
  have formula: "relevanceFor toLowerCase query nm ty =
     (let q = trim (toLowerCase query); n = toLowerCase nm in
        (if n = q then 1000 else if startsWith n q then 100 else if includesStr n q then 50 else 0)
        + (\<Sum>queryWord \<leftarrow> wordsOf q. \<Sum>nameWord \<leftarrow> wordsOf n.
             if queryWord = nameWord then 25
             else if includesStr nameWord queryWord \<or> includesStr queryWord nameWord then 10
             else 0)
        + (case ty of Track \<Rightarrow> 5 | Artist \<Rightarrow> 3 | Album \<Rightarrow> 2 | Playlist \<Rightarrow> 1))"
    unfolding relevanceFor_def calculateRelevance_spec specRelevance_def queryLowerOf_def
      matchBonus_def wordPairBonus_def categoryBonus_def Let_def
    by (rule refl)
  have b1: "1 \<le> categoryBonus ty1 \<and> categoryBonus ty1 \<le> 5"
    and b2: "1 \<le> categoryBonus ty2 \<and> categoryBonus ty2 \<le> 5"
    by (rule categoryBonus_bounds)+
  have order: "relevanceFor toLowerCase (str ''love'') (str ''Love'') ty1
           > relevanceFor toLowerCase (str ''love'') (str ''I Love You'') ty2
         \<and> relevanceFor toLowerCase (str ''love'') (str ''Love'') ty1
           > relevanceFor toLowerCase (str ''love'') (str ''Lovely'') ty2
         \<and> relevanceFor toLowerCase (str ''love'') (str ''I Love You'') ty1
           > relevanceFor toLowerCase (str ''love'') (str ''Yesterday'') ty2
         \<and> relevanceFor toLowerCase (str ''love'') (str ''Lovely'') ty1
           > relevanceFor toLowerCase (str ''love'') (str ''Yesterday'') ty2"
    if "lowersBasicLatin toLowerCase"
    using b1 b2 by (simp only: love_scores[OF that]) simp
  from formula order show ?thesis by blast
qed

theorem relevance_score_formula_witness:
  "relevanceFor lowerBasicLatin (str ''love'') (str ''Love'') Playlist
     > relevanceFor lowerBasicLatin (str ''love'') (str ''I Love You'') Track
   \<and> relevanceFor lowerBasicLatin (str ''love'') (str ''Love'') Playlist
     > relevanceFor lowerBasicLatin (str ''love'') (str ''Lovely'') Track
   \<and> relevanceFor lowerBasicLatin (str ''love'') (str ''I Love You'') Playlist
     > relevanceFor lowerBasicLatin (str ''love'') (str ''Yesterday'') Track
   \<and> relevanceFor lowerBasicLatin (str ''love'') (str ''Lovely'') Playlist
     > relevanceFor lowerBasicLatin (str ''love'') (str ''Yesterday'') Track"
  using relevance_score_formula[where toLowerCase = lowerBasicLatin and ?ty1.0 = Playlist
      and ?ty2.0 = Track, THEN conjunct2]
  by (simp add: lowersBasicLatin_def)

subsection \<open>Track deduplication\<close>

lemma atLeastAsGood_refl: "atLeastAsGood a a"
  by (simp add: atLeastAsGood_def)

lemma atLeastAsGood_trans: "atLeastAsGood c b \<Longrightarrow> atLeastAsGood b a \<Longrightarrow> atLeastAsGood c a"
  unfolding atLeastAsGood_def by linarith

lemma pickBetter_cases: "pickBetter p c = p \<or> pickBetter p c = c"
  by (simp add: pickBetter_def)

lemma pickBetter_prev: "atLeastAsGood (pickBetter p c) p"
  unfolding pickBetter_def atLeastAsGood_def by auto

lemma pickBetter_current: "atLeastAsGood (pickBetter p c) c"
  unfolding pickBetter_def atLeastAsGood_def by auto

lemma foldl_pickBetter_mem: "foldl pickBetter a xs \<in> set (a # xs)"
proof (induction xs arbitrary: a)
  case Nil
  then show ?case by simp
next
  case (Cons x xs)
  have "foldl pickBetter (pickBetter a x) xs \<in> set (pickBetter a x # xs)"
    by (rule Cons.IH)
  moreover have "pickBetter a x = a \<or> pickBetter a x = x"
    by (rule pickBetter_cases)
  ultimately show ?case by auto
qed

lemma foldl_pickBetter_start: "atLeastAsGood (foldl pickBetter a xs) a"
proof (induction xs arbitrary: a)
  case Nil
  then show ?case by (simp add: atLeastAsGood_refl)
next
  case (Cons x xs)
  have "atLeastAsGood (foldl pickBetter (pickBetter a x) xs) (pickBetter a x)"
    by (rule Cons.IH)
  then show ?case
    using atLeastAsGood_trans pickBetter_prev by fastforce
qed

lemma foldl_pickBetter_all:
  "x \<in> set xs \<Longrightarrow> atLeastAsGood (foldl pickBetter a xs) x"
proof (induction xs arbitrary: a)
  case Nil
  then show ?case by simp
next
  case (Cons y ys)
  show ?case
  proof (cases "x = y")
    case True
    have "atLeastAsGood (foldl pickBetter (pickBetter a y) ys) (pickBetter a y)"
      by (rule foldl_pickBetter_start)
    then have "atLeastAsGood (foldl pickBetter (pickBetter a y) ys) y"
      using atLeastAsGood_trans pickBetter_current by blast
    with True show ?thesis by simp
  next
    case False
    with Cons.prems have "x \<in> set ys" by simp
    then show ?thesis using Cons.IH by simp
  qed
qed

lemma bestTrack_best:
  assumes "g \<noteq> []"
  shows "\<exists>best. bestTrack g = Some best \<and> best \<in> set g \<and> (\<forall>t \<in> set g. atLeastAsGood best t)"
proof -
  from assms obtain a xs where g: "g = a # xs" by (cases g) auto
  have b: "bestTrack g = Some (foldl pickBetter a xs)"
    by (cases xs) (simp_all add: bestTrack_def g)
  have "\<forall>t \<in> set g. atLeastAsGood (foldl pickBetter a xs) t"
    using foldl_pickBetter_all foldl_pickBetter_start g by auto
  with b foldl_pickBetter_mem[of a xs] g show ?thesis by auto
qed

lemma addToGroup_keys:
  "map fst (addToGroup lc gs t) =
     (if trackKey lc t \<in> set (map fst gs) then map fst gs else map fst gs @ [trackKey lc t])"
proof -
  have "map fst (map (\<lambda>(k, g). if k = key then (k, g @ [t]) else (k, g)) gs) = map fst gs" for key
    by (induction gs) auto
  then show ?thesis
    by (simp add: addToGroup_def Let_def)
qed

lemma addToGroup_cases:
  assumes "(k, g) \<in> set (addToGroup lc gs t)"
  shows "(k, g) \<in> set gs \<or> (k = trackKey lc t \<and> (g = [t] \<or> (\<exists>g0. (k, g0) \<in> set gs \<and> g = g0 @ [t])))"
  using assms by (auto simp: addToGroup_def Let_def split: if_splits)

lemma addToGroup_new:
  "\<exists>g. (trackKey lc t, g) \<in> set (addToGroup lc gs t) \<and> t \<in> set g"
proof (cases "trackKey lc t \<in> set (map fst gs)")
  case True
  then obtain g0 where "(trackKey lc t, g0) \<in> set gs" by auto
  then have "(trackKey lc t, g0 @ [t]) \<in> set (addToGroup lc gs t)"
    using True by (force simp: addToGroup_def Let_def)
  then show ?thesis by auto
next
  case False
  then show ?thesis by (auto simp: addToGroup_def Let_def)
qed

lemma addToGroup_keeps:
  assumes "(k, g) \<in> set gs" and "x \<in> set g"
  shows "\<exists>g'. (k, g') \<in> set (addToGroup lc gs t) \<and> x \<in> set g'"
proof (cases "trackKey lc t \<in> set (map fst gs)")
  case True
  show ?thesis
  proof (cases "k = trackKey lc t")
    case True
    with assms \<open>trackKey lc t \<in> set (map fst gs)\<close>
    have "(k, g @ [t]) \<in> set (addToGroup lc gs t)"
      by (force simp: addToGroup_def Let_def)
    with assms show ?thesis by auto
  next
    case False
    with assms \<open>trackKey lc t \<in> set (map fst gs)\<close>
    have "(k, g) \<in> set (addToGroup lc gs t)"
      by (force simp: addToGroup_def Let_def)
    with assms show ?thesis by auto
  qed
next
  case False
  with assms show ?thesis by (auto simp: addToGroup_def Let_def)
qed

lemma addToGroup_wellGrouped:
  assumes "wellGrouped lc gs"
  shows "wellGrouped lc (addToGroup lc gs t)"
proof -
  have d: "distinct (map fst (addToGroup lc gs t))"
    using assms by (simp add: addToGroup_keys wellGrouped_def)
  have "g \<noteq> [] \<and> (\<forall>x \<in> set g. trackKey lc x = k)" if "(k, g) \<in> set (addToGroup lc gs t)" for k g
    using addToGroup_cases[OF that] assms unfolding wellGrouped_def by fastforce
  with d show ?thesis unfolding wellGrouped_def by auto
qed

lemma foldl_addToGroup_wellGrouped:
  "wellGrouped lc gs \<Longrightarrow> wellGrouped lc (foldl (addToGroup lc) gs items)"
  by (induction items arbitrary: gs) (simp_all add: addToGroup_wellGrouped)

lemma foldl_addToGroup_keeps:
  "(k, g) \<in> set gs \<Longrightarrow> x \<in> set g \<Longrightarrow>
     \<exists>g'. (k, g') \<in> set (foldl (addToGroup lc) gs items) \<and> x \<in> set g'"
proof (induction items arbitrary: gs g)
  case Nil
  then show ?case by auto
next
  case (Cons t ts)
  from addToGroup_keeps[OF Cons.prems, where t = t and lc = lc]
  obtain g' where "(k, g') \<in> set (addToGroup lc gs t)" "x \<in> set g'" by blast
  from Cons.IH[OF this] show ?case by simp
qed

lemma foldl_addToGroup_covers:
  "t \<in> set items \<Longrightarrow> \<exists>g. (trackKey lc t, g) \<in> set (foldl (addToGroup lc) gs items) \<and> t \<in> set g"
proof (induction items arbitrary: gs)
  case Nil
  then show ?case by simp
next
  case (Cons a as)
  show ?case
  proof (cases "t \<in> set as")
    case True
    then show ?thesis using Cons.IH by simp
  next
    case False
    with Cons.prems have "t = a" by simp
    obtain g where "(trackKey lc t, g) \<in> set (addToGroup lc gs t)" "t \<in> set g"
      using addToGroup_new by blast
    from foldl_addToGroup_keeps[OF this] \<open>t = a\<close> show ?thesis by simp
  qed
qed

lemma foldl_addToGroup_from:
  "(k, g) \<in> set (foldl (addToGroup lc) gs items) \<Longrightarrow> x \<in> set g \<Longrightarrow>
     x \<in> set items \<or> (\<exists>g0. (k, g0) \<in> set gs \<and> x \<in> set g0)"
proof (induction items arbitrary: gs)
  case Nil
  then show ?case by auto
next
  case (Cons a as)
  from Cons.IH[of "addToGroup lc gs a"] Cons.prems
  consider "x \<in> set as" | g0 where "(k, g0) \<in> set (addToGroup lc gs a)" "x \<in> set g0"
    by auto
  then show ?case
  proof cases
    case 1
    then show ?thesis by simp
  next
    case 2
    from addToGroup_cases[OF 2(1)] 2(2) show ?thesis by auto
  qed
qed

lemma groupTracks_wellGrouped: "wellGrouped lc (groupTracks lc items)"
  unfolding groupTracks_def
  by (rule foldl_addToGroup_wellGrouped) (simp add: wellGrouped_def)

lemma groupTracks_group:
  assumes "(key, trackGroup) \<in> set (groupTracks lc items)"
  shows "trackGroup \<noteq> []" and "\<forall>t \<in> set trackGroup. t \<in> set items \<and> trackKey lc t = key"
proof -
  from groupTracks_wellGrouped[of lc items] assms
  have w: "trackGroup \<noteq> [] \<and> (\<forall>t \<in> set trackGroup. trackKey lc t = key)"
    unfolding wellGrouped_def by auto
  then show "trackGroup \<noteq> []" by simp
  have "t \<in> set items" if "t \<in> set trackGroup" for t
    using foldl_addToGroup_from[of key trackGroup lc "[]" items t] assms that
    by (simp add: groupTracks_def)
  with w show "\<forall>t \<in> set trackGroup. t \<in> set items \<and> trackKey lc t = key" by simp
qed

lemma bestTrack_representative:
  assumes "g \<noteq> []"
  shows "\<exists>best. bestTrack g = Some best \<and> best \<in> set g
           \<and> (\<forall>t \<in> set g. track_popularity t \<le> track_popularity best)
           \<and> (\<forall>t \<in> set g. track_popularity t = track_popularity best
                 \<longrightarrow> \<bar>duration_ms best - 210000\<bar> \<le> \<bar>duration_ms t - 210000\<bar>)"
proof -
  from bestTrack_best[OF assms] obtain best where
    b: "bestTrack g = Some best" "best \<in> set g" "\<forall>t \<in> set g. atLeastAsGood best t"
    by blast
  have "track_popularity t \<le> track_popularity best" if "t \<in> set g" for t
    using b(3) that unfolding atLeastAsGood_def by fastforce
  moreover have "\<bar>duration_ms best - 210000\<bar> \<le> \<bar>duration_ms t - 210000\<bar>"
    if "t \<in> set g" "track_popularity t = track_popularity best" for t
    using b(3) that unfolding atLeastAsGood_def by fastforce
  ultimately show ?thesis using b(1,2) by blast
qed

lemma processTracks_one_per_group:
  "map Some (processTracks lc q items)
     = map (\<lambda>(key, trackGroup). map_option (trackItem lc q) (bestTrack trackGroup)) (groupTracks lc items)"
proof -
  have ne: "\<forall>(k, g) \<in> set (groupTracks lc items). g \<noteq> []"
    using groupTracks_wellGrouped[of lc items] unfolding wellGrouped_def by auto
  have "map Some (List.map_filter (\<lambda>(key, trackGroup). map_option (trackItem lc q) (bestTrack trackGroup)) gs)
          = map (\<lambda>(key, trackGroup). map_option (trackItem lc q) (bestTrack trackGroup)) gs"
    if "\<forall>(k, g) \<in> set gs. g \<noteq> []" for gs :: "(jsString \<times> rawTrack list) list"
    using that
  proof (induction gs)
    case Nil
    then show ?case by simp
  next
    case (Cons p ps)
    obtain k g where p: "p = (k, g)" by (cases p)
    with Cons.prems have "g \<noteq> []" by simp
    then obtain best where "bestTrack g = Some best"
      using bestTrack_best by blast
    with Cons p show ?case by simp
  qed
  from this[OF ne] show ?thesis by (simp add: processTracks_def)
qed

lemma hello_example:
  "processTracks lc q [helloLong, helloShort] = [trackItem lc q helloShort]"
proof -
  have k: "trackKey lc helloLong = trackKey lc helloShort"
    by (simp add: trackKey_def helloLong_def helloShort_def)
  have g: "groupTracks lc [helloLong, helloShort]
             = [(trackKey lc helloShort, [helloLong, helloShort])]"
    by (simp add: groupTracks_def addToGroup_def k Let_def)
  have b: "bestTrack [helloLong, helloShort] = Some helloShort"
    by (simp add: bestTrack_def pickBetter_def helloLong_def helloShort_def)
  show ?thesis
    by (simp add: processTracks_def g b List.map_filter_def)
qed

lemma groupTracks_keys: "set (map fst (groupTracks lc items)) = trackKey lc ` set items"
proof
  show "set (map fst (groupTracks lc items)) \<subseteq> trackKey lc ` set items"
  proof
    fix k
    assume "k \<in> set (map fst (groupTracks lc items))"
    then obtain g where m: "(k, g) \<in> set (groupTracks lc items)" by auto
    from groupTracks_group[OF m] obtain t where "t \<in> set g" "t \<in> set items" "trackKey lc t = k"
      by (cases g) auto
    then show "k \<in> trackKey lc ` set items" by auto
  qed
next
  show "trackKey lc ` set items \<subseteq> set (map fst (groupTracks lc items))"
  proof
    fix k
    assume "k \<in> trackKey lc ` set items"
    then obtain t where t: "t \<in> set items" "k = trackKey lc t" by auto
    from foldl_addToGroup_covers[OF t(1), of lc "[]"] obtain g where
      "(trackKey lc t, g) \<in> set (groupTracks lc items)"
      by (auto simp: groupTracks_def)
    with t(2) show "k \<in> set (map fst (groupTracks lc items))" by force
  qed
qed

lemma groupTracks_count: "length (groupTracks lc items) = card (trackKey lc ` set items)"
proof -
  have "distinct (map fst (groupTracks lc items))"
    using groupTracks_wellGrouped[of lc items] by (simp add: wellGrouped_def)
  then have "card (set (map fst (groupTracks lc items))) = length (map fst (groupTracks lc items))"
    by (rule distinct_card)
  then show ?thesis unfolding groupTracks_keys by simp
qed

lemma split_at_bar:
  assumes "bar \<notin> set a" and "bar \<notin> set b"
    and "a @ [bar] @ x = b @ [bar] @ y"
  shows "a = b \<and> x = y"
proof -
  have t: "takeWhile (\<lambda>c. c \<noteq> bar) (s @ [bar] @ z) = s" if "bar \<notin> set s" for s z
    using that by (induction s) auto
  from t[OF assms(1), of x] t[OF assms(2), of y] assms(3) have "a = b" by simp
  with assms(3) show ?thesis by simp
qed

lemma str_bar: "str ''|'' = [0x007C]"
  by (simp add: str_def)

lemma trackKey_pair:
  assumes "0x007C \<notin> set (lc (track_name a))" and "0x007C \<notin> set (lc (track_name b))"
  shows "trackKey lc a = trackKey lc b \<longleftrightarrow> lowerPair lc a = lowerPair lc b"
  using split_at_bar[OF assms]
  by (auto simp: trackKey_def lowerPair_def str_bar)

lemma length_insertBy: "length (insertBy cmp x ys) = Suc (length ys)"
  by (induction ys) simp_all

lemma length_sortBy: "length (sortBy cmp xs) = length xs"
  unfolding sortBy_def by (induction xs) (simp_all add: length_insertBy)

lemma mset_insertBy: "mset (insertBy cmp x ys) = add_mset x (mset ys)"
  by (induction ys) simp_all

lemma mset_sortBy: "mset (sortBy cmp xs) = mset xs"
  unfolding sortBy_def by (induction xs) (simp_all add: mset_insertBy)

lemma tracks_of_answer:
  assumes "api (searchRequestOf query limit) = Inr data" and "data_tracks data = Some items"
  shows "\<exists>out. searchMultiType lc api query limit = Inr out
           \<and> tracks (by_type out) = sortBy categoryCmp (processTracks lc (queryLowerOf lc query) items)"
  using assms by (simp add: searchMultiType_def resultsByType_def orEmpty_def Let_def)

text \<open>
  C6, as stated, fails for the grouping: the hits are grouped by the string made of the
  lower-cased track name, a bar, and the lower-cased name of the first artist, not by the
  pair. The hit "a|b" by "c" and the hit "a" by "b|c" are of different pairs and have the
  same key; they fall into one group, and the function returns one track for the two.
\<close>

theorem bar_merges_pairs:
  "lowerPair lowerBasicLatin barInName \<noteq> lowerPair lowerBasicLatin barInArtist
   \<and> trackKey lowerBasicLatin barInName = trackKey lowerBasicLatin barInArtist
   \<and> groupTracks lowerBasicLatin [barInName, barInArtist]
       = [(str ''a|b|c'', [barInName, barInArtist])]
   \<and> searchMultiType lowerBasicLatin barApi (str ''a'') 20
       = Inr \<lparr> results = combinedResults 20 (resultsByType lowerBasicLatin (str ''a'') barData),
               by_type = resultsByType lowerBasicLatin (str ''a'') barData \<rparr>
   \<and> map spotify_id (tracks (resultsByType lowerBasicLatin (str ''a'') barData)) = [str ''bar-2'']"
proof -
  have k: "trackKey lowerBasicLatin barInName = str ''a|b|c''"
    "trackKey lowerBasicLatin barInArtist = str ''a|b|c''"
    by (simp_all add: trackKey_def firstArtistLower_def barInName_def barInArtist_def
        lowerBasicLatin_def lowerBasicLatinUnit_def str_def)
  have p: "lowerPair lowerBasicLatin barInName \<noteq> lowerPair lowerBasicLatin barInArtist"
    by (simp add: lowerPair_def barInName_def barInArtist_def lowerBasicLatin_def str_def)
  have g: "groupTracks lowerBasicLatin [barInName, barInArtist]
       = [(str ''a|b|c'', [barInName, barInArtist])]"
    by (simp add: groupTracks_def addToGroup_def k Let_def)
  have b: "bestTrack [barInName, barInArtist] = Some barInArtist"
    by (simp add: bestTrack_def pickBetter_def barInName_def barInArtist_def)
  have s: "searchMultiType lowerBasicLatin barApi (str ''a'') 20
       = Inr \<lparr> results = combinedResults 20 (resultsByType lowerBasicLatin (str ''a'') barData),
               by_type = resultsByType lowerBasicLatin (str ''a'') barData \<rparr>"
    by (simp add: searchMultiType_def barApi_def Let_def)
  have "tracks (resultsByType lowerBasicLatin (str ''a'') barData)
          = [trackItem lowerBasicLatin (queryLowerOf lowerBasicLatin (str ''a'')) barInArtist]"
    by (simp add: resultsByType_def barData_def orEmpty_def processTracks_def g b
        List.map_filter_def sortBy_def Let_def)
  moreover have "spotify_id (trackItem lowerBasicLatin q barInArtist) = str ''bar-2''" for q
    by (simp add: trackItem_def barInArtist_def)
  ultimately have "map spotify_id (tracks (resultsByType lowerBasicLatin (str ''a'') barData))
      = [str ''bar-2'']"
    by simp
  with p k g s show ?thesis by simp
qed

text \<open>
  C6, amended. \<open>searchMultiType\<close> groups the raw track hits by the key string made of
  the lower-cased track name, a bar, and the lower-cased name of the first artist. Hits of
  the same lower-cased pair have the same key, and hits with the same key are of the same
  pair when no bar occurs in their lower-cased track names. Every hit is in the one group
  of its key, and a group holds only hits of the list with that key. The representative
  of a group (of any size, so of every group of more than one hit) is a hit of the group
  with the highest popularity and, among the hits of that popularity, with a duration
  closest to 210000 ms. The track list of the answer holds exactly the items of the
  representatives, one for each key. The two hits "Hello" by "Adele" (295000 ms,
  popularity 80, and 200000 ms, popularity 95) collapse to the one of popularity 95.
\<close>

theorem track_deduplication:
  assumes "api (searchRequestOf query limit) = Inr data" and "data_tracks data = Some items"
  shows "(\<exists>out. searchMultiType toLowerCase api query limit = Inr out
            \<and> mset (map Some (tracks (by_type out)))
                = mset (map (\<lambda>(key, trackGroup).
                               map_option (trackItem toLowerCase (queryLowerOf toLowerCase query))
                                 (bestTrack trackGroup))
                          (groupTracks toLowerCase items))
            \<and> length (tracks (by_type out)) = card (trackKey toLowerCase ` set items))
   \<and> (\<forall>(key, trackGroup) \<in> set (groupTracks toLowerCase items).
      (\<forall>t \<in> set trackGroup. t \<in> set items \<and> trackKey toLowerCase t = key)
      \<and> (\<exists>best. bestTrack trackGroup = Some best \<and> best \<in> set trackGroup
            \<and> (\<forall>t \<in> set trackGroup. track_popularity t \<le> track_popularity best)
            \<and> (\<forall>t \<in> set trackGroup. track_popularity t = track_popularity best
                  \<longrightarrow> \<bar>duration_ms best - 210000\<bar> \<le> \<bar>duration_ms t - 210000\<bar>)))
   \<and> distinct (map fst (groupTracks toLowerCase items))
   \<and> (\<forall>t \<in> set items. \<exists>trackGroup. (trackKey toLowerCase t, trackGroup) \<in> set (groupTracks toLowerCase items)
                            \<and> t \<in> set trackGroup)
   \<and> (\<forall>a b. lowerPair toLowerCase a = lowerPair toLowerCase b
          \<longrightarrow> trackKey toLowerCase a = trackKey toLowerCase b)
   \<and> (\<forall>a b. 0x007C \<notin> set (toLowerCase (track_name a)) \<and> 0x007C \<notin> set (toLowerCase (track_name b))
          \<and> trackKey toLowerCase a = trackKey toLowerCase b
          \<longrightarrow> lowerPair toLowerCase a = lowerPair toLowerCase b)
   \<and> processTracks toLowerCase q [helloLong, helloShort] = [trackItem toLowerCase q helloShort]
   \<and> track_popularity helloShort = 95"
proof -
  have a: "\<forall>(key, trackGroup) \<in> set (groupTracks toLowerCase items).
      (\<forall>t \<in> set trackGroup. t \<in> set items \<and> trackKey toLowerCase t = key)
      \<and> (\<exists>best. bestTrack trackGroup = Some best \<and> best \<in> set trackGroup
            \<and> (\<forall>t \<in> set trackGroup. track_popularity t \<le> track_popularity best)
            \<and> (\<forall>t \<in> set trackGroup. track_popularity t = track_popularity best
                  \<longrightarrow> \<bar>duration_ms best - 210000\<bar> \<le> \<bar>duration_ms t - 210000\<bar>))"
  proof (intro ballI)
    fix p
    assume p: "p \<in> set (groupTracks toLowerCase items)"
    obtain key trackGroup where pk: "p = (key, trackGroup)" by (cases p)
    from p pk have m: "(key, trackGroup) \<in> set (groupTracks toLowerCase items)" by simp
    from groupTracks_group[OF m] bestTrack_representative[of trackGroup]
    show "case p of (key, trackGroup) \<Rightarrow>
      (\<forall>t \<in> set trackGroup. t \<in> set items \<and> trackKey toLowerCase t = key)
      \<and> (\<exists>best. bestTrack trackGroup = Some best \<and> best \<in> set trackGroup
            \<and> (\<forall>t \<in> set trackGroup. track_popularity t \<le> track_popularity best)
            \<and> (\<forall>t \<in> set trackGroup. track_popularity t = track_popularity best
                  \<longrightarrow> \<bar>duration_ms best - 210000\<bar> \<le> \<bar>duration_ms t - 210000\<bar>))"
      by (simp add: pk)
  qed
  have b: "distinct (map fst (groupTracks toLowerCase items))"
    using groupTracks_wellGrouped[of toLowerCase items] by (simp add: wellGrouped_def)
  have c: "\<forall>t \<in> set items. \<exists>trackGroup. (trackKey toLowerCase t, trackGroup) \<in> set (groupTracks toLowerCase items)
                            \<and> t \<in> set trackGroup"
    using foldl_addToGroup_covers by (simp add: groupTracks_def)
  have d: "\<forall>a b. lowerPair toLowerCase a = lowerPair toLowerCase b
          \<longrightarrow> trackKey toLowerCase a = trackKey toLowerCase b"
    by (simp add: lowerPair_def trackKey_def)
  have e: "\<forall>a b. 0x007C \<notin> set (toLowerCase (track_name a)) \<and> 0x007C \<notin> set (toLowerCase (track_name b))
          \<and> trackKey toLowerCase a = trackKey toLowerCase b
          \<longrightarrow> lowerPair toLowerCase a = lowerPair toLowerCase b"
    using trackKey_pair by blast
  have f: "\<exists>out. searchMultiType toLowerCase api query limit = Inr out
            \<and> mset (map Some (tracks (by_type out)))
                = mset (map (\<lambda>(key, trackGroup).
                               map_option (trackItem toLowerCase (queryLowerOf toLowerCase query))
                                 (bestTrack trackGroup))
                          (groupTracks toLowerCase items))
            \<and> length (tracks (by_type out)) = card (trackKey toLowerCase ` set items)"
  proof -
    from tracks_of_answer[where api = api and data = data and lc = toLowerCase, OF assms]
    obtain out where
      o: "searchMultiType toLowerCase api query limit = Inr out"
        "tracks (by_type out)
           = sortBy categoryCmp (processTracks toLowerCase (queryLowerOf toLowerCase query) items)"
      by blast
    have "mset (map Some (tracks (by_type out)))
            = image_mset Some (mset (processTracks toLowerCase (queryLowerOf toLowerCase query) items))"
      by (simp add: o(2) mset_sortBy)
    also have "\<dots> = mset (map Some (processTracks toLowerCase (queryLowerOf toLowerCase query) items))"
      by simp
    finally have m: "mset (map Some (tracks (by_type out)))
            = mset (map (\<lambda>(key, trackGroup).
                           map_option (trackItem toLowerCase (queryLowerOf toLowerCase query))
                             (bestTrack trackGroup))
                      (groupTracks toLowerCase items))"
      by (simp only: processTracks_one_per_group)
    have "length (tracks (by_type out))
            = length (map Some (processTracks toLowerCase (queryLowerOf toLowerCase query) items))"
      by (simp add: o(2) length_sortBy)
    also have "\<dots> = length (groupTracks toLowerCase items)"
      by (simp only: processTracks_one_per_group length_map)
    finally have "length (tracks (by_type out)) = card (trackKey toLowerCase ` set items)"
      by (simp add: groupTracks_count)
    with o(1) m show ?thesis by blast
  qed
  have g: "track_popularity helloShort = 95" by (simp add: helloShort_def)
  from f a b c d e hello_example[of toLowerCase q] g
  show ?thesis by (intro conjI)
qed

theorem track_deduplication_witness:
  "\<exists>out. searchMultiType lowerBasicLatin helloApi (str ''hello'') 20 = Inr out
      \<and> map popularity (tracks (by_type out)) = [Some 95]
      \<and> length (tracks (by_type out)) = card (trackKey lowerBasicLatin ` {helloLong, helloShort})"
proof -
  have h: "helloApi (searchRequestOf (str ''hello'') 20)
             = Inr \<lparr> data_tracks = Some [helloLong, helloShort], data_artists = None,
                     data_albums = None, data_playlists = None \<rparr>"
    "data_tracks \<lparr> data_tracks = Some [helloLong, helloShort], data_artists = None,
                    data_albums = None, data_playlists = None \<rparr> = Some [helloLong, helloShort]"
    by (simp_all add: helloApi_def)
  from track_deduplication[where api = helloApi and toLowerCase = lowerBasicLatin
      and data = "\<lparr> data_tracks = Some [helloLong, helloShort], data_artists = None,
                     data_albums = None, data_playlists = None \<rparr>", OF h, THEN conjunct1]
  obtain out where
    o: "searchMultiType lowerBasicLatin helloApi (str ''hello'') 20 = Inr out"
      "length (tracks (by_type out)) = card (trackKey lowerBasicLatin ` set [helloLong, helloShort])"
    by blast
  from tracks_of_answer[where api = helloApi and lc = lowerBasicLatin
      and data = "\<lparr> data_tracks = Some [helloLong, helloShort], data_artists = None,
                     data_albums = None, data_playlists = None \<rparr>", OF h] o(1)
  have "tracks (by_type out)
          = sortBy categoryCmp (processTracks lowerBasicLatin (queryLowerOf lowerBasicLatin (str ''hello''))
              [helloLong, helloShort])"
    by simp
  then have "tracks (by_type out)
          = [trackItem lowerBasicLatin (queryLowerOf lowerBasicLatin (str ''hello'')) helloShort]"
    by (simp add: hello_example sortBy_def)
  moreover have "popularity (trackItem lowerBasicLatin q helloShort) = Some 95" for q
    by (simp add: trackItem_def helloShort_def)
  ultimately have "map popularity (tracks (by_type out)) = [Some 95]"
    by simp
  with o show ?thesis by simp
qed

subsection \<open>Rounding to the nearest double\<close>

text \<open>
  \<open>floorLog2\<close> finds the binade of a positive rational, \<open>roundHalfEven\<close> an
  integer within one half; so a finite result of \<open>roundDouble\<close> is a multiple of
  the unit in the last place within half a unit of the argument, and a double is rounded
  to itself. Every result is a double (a multiple of \<open>2^-1074\<close>, or an infinity),
  and on such multiples the rounding keeps the sign.
\<close>

lemma floorLog2_binade:
  assumes "0 < x"
  shows "2 powi floorLog2 x \<le> x \<and> x < 2 powi (floorLog2 x + 1)"
proof (cases "1 \<le> x")
  case True
  define n where "n = \<lfloor>x\<rfloor>"
  from True have n: "0 < n" by (simp add: n_def)
  from bitlen_bounds[OF n] have b: "2 ^ nat (bitlen n - 1) \<le> n" "n < 2 ^ nat (bitlen n)"
    by simp_all
  from n have p: "1 \<le> bitlen n" by (simp add: bitlen_alt_def)
  have k: "floorLog2 x = bitlen n - 1" using True by (simp add: floorLog2_def n_def)
  have "(2::rat) powi (bitlen n - 1) = of_int (2 ^ nat (bitlen n - 1))"
    using p by (simp add: power_int_def)
  also have "\<dots> \<le> of_int n" using b(1) by (simp only: of_int_le_iff)
  also have "\<dots> \<le> x" by (simp add: n_def)
  finally have lo: "2 powi floorLog2 x \<le> x" by (simp add: k)
  have "x < of_int (n + 1)" unfolding n_def by linarith
  also have "\<dots> \<le> of_int (2 ^ nat (bitlen n))" using b(2) by (simp only: of_int_le_iff zle_add1_eq_le)
  also have "\<dots> = (2::rat) powi (bitlen n)" using p by (simp add: power_int_def)
  finally have "x < 2 powi (floorLog2 x + 1)" by (simp add: k)
  with lo show ?thesis by simp
next
  case False
  define c where "c = \<lceil>1 / x\<rceil>"
  define m where "m = c - 1"
  from False assms have y: "1 < 1 / x" by simp
  then have "2 \<le> c" unfolding c_def by (simp add: le_ceiling_iff)
  then have m: "0 < m" by (simp add: m_def)
  from bitlen_bounds[OF m] have b: "2 ^ nat (bitlen m - 1) \<le> m" "m < 2 ^ nat (bitlen m)"
    by simp_all
  from m have p: "1 \<le> bitlen m" by (simp add: bitlen_alt_def)
  have k: "floorLog2 x = - bitlen m" using False by (simp add: floorLog2_def m_def c_def)
  have "1 / x \<le> of_int c" by (simp add: c_def)
  also have "\<dots> = of_int (m + 1)" by (simp add: m_def)
  also have "\<dots> \<le> of_int (2 ^ nat (bitlen m))" using b(2) by (simp only: of_int_le_iff zle_add1_eq_le)
  also have "\<dots> = (2::rat) ^ nat (bitlen m)" by simp
  finally have "1 / x \<le> 2 ^ nat (bitlen m)" .
  with assms have "1 \<le> x * 2 ^ nat (bitlen m)" by (simp add: field_simps)
  then have lo: "2 powi floorLog2 x \<le> x"
    using p by (simp add: k power_int_def field_simps)
  have "of_int (2 ^ nat (bitlen m - 1)) \<le> (of_int m :: rat)" using b(1) by (simp only: of_int_le_iff)
  also have "(of_int m :: rat) < 1 / x" unfolding m_def c_def by linarith
  finally have "(2::rat) ^ nat (bitlen m - 1) < 1 / x" by simp
  with assms have "x * 2 ^ nat (bitlen m - 1) < 1" by (simp add: field_simps)
  then have "x < 1 / 2 ^ nat (bitlen m - 1)" by (simp add: field_simps)
  moreover have "(2::rat) powi (floorLog2 x + 1) = 1 / 2 ^ nat (bitlen m - 1)"
  proof (cases "bitlen m = 1")
    case True
    then show ?thesis by (simp add: k)
  next
    case False
    with p have "floorLog2 x + 1 < 0" "nat (- (floorLog2 x + 1)) = nat (bitlen m - 1)"
      by (simp_all add: k)
    then show ?thesis by (simp add: power_int_def field_simps)
  qed
  ultimately have "x < 2 powi (floorLog2 x + 1)" by simp
  with lo show ?thesis by simp
qed

lemma roundHalfEven_nearest: "\<bar>x - of_int (roundHalfEven x)\<bar> \<le> 1 / 2"
  unfolding roundHalfEven_def Let_def by (auto simp: abs_if) linarith+

lemma roundHalfEven_of_int: "roundHalfEven (of_int n) = n"
  by (simp add: roundHalfEven_def)

lemma floorLog2_less:
  assumes "0 < x" and "x < 2 powi k"
  shows "floorLog2 x < k"
proof (rule ccontr)
  assume "\<not> floorLog2 x < k"
  then have "(2::rat) powi k \<le> 2 powi floorLog2 x"
    by (intro power_int_increasing) simp_all
  with floorLog2_binade[OF assms(1)] assms(2) show False by simp
qed

lemma roundDouble_nearest:
  assumes "x \<noteq> 0" and "roundDouble x = Finite y"
    and "ulp = 2 powi (max (floorLog2 \<bar>x\<bar> - 52) (- 1074))"
  shows "(\<exists>m. y = of_int m * ulp) \<and> \<bar>x - y\<bar> \<le> ulp / 2"
proof -
  have u: "0 < ulp" by (simp add: assms(3))
  define m where "m = roundHalfEven (x / ulp)"
  from assms(1,2) have y: "y = of_int m * ulp"
    by (auto simp: roundDouble_def Let_def m_def assms(3) split: if_splits)
  have "\<bar>x - y\<bar> = \<bar>x / ulp - of_int m\<bar> * ulp"
    using u by (simp add: y abs_mult[symmetric] field_simps)
  also have "\<dots> \<le> 1 / 2 * ulp"
    using u roundHalfEven_nearest[of "x / ulp"] by (intro mult_right_mono) (simp_all add: m_def)
  finally show ?thesis using y by auto
qed

lemma roundDouble_of_double:
  assumes "\<bar>m\<bar> < 2 ^ 53" and "- 1074 \<le> e" and "e \<le> 971"
  shows "roundDouble (of_int m * 2 powi e) = Finite (of_int m * 2 powi e)"
proof (cases "m = 0")
  case True
  then show ?thesis by (simp add: roundDouble_def)
next
  case False
  define x :: rat where "x = of_int m * 2 powi e"
  have x0: "x \<noteq> 0" using False by (simp add: x_def)
  have ax: "\<bar>x\<bar> = of_int \<bar>m\<bar> * 2 powi e"
    by (simp add: x_def abs_mult power_int_abs)
  have "(of_int \<bar>m\<bar> :: rat) < of_int (2 ^ 53)"
    using assms(1) by (simp only: of_int_less_iff)
  then have "\<bar>x\<bar> < 2 ^ 53 * 2 powi e"
    unfolding ax by (intro mult_strict_right_mono) simp_all
  also have "\<dots> = 2 powi (53 + e)"
    by (simp add: power_int_add)
  finally have lt: "\<bar>x\<bar> < 2 powi (53 + e)" .
  with x0 have fl: "floorLog2 \<bar>x\<bar> < 53 + e"
    by (intro floorLog2_less) simp_all
  define e' where "e' = max (floorLog2 \<bar>x\<bar> - 52) (- 1074)"
  from fl assms(2) have le: "e' \<le> e" by (simp add: e'_def)
  have "(2::rat) powi e / 2 powi e' = 2 powi (e - e')"
    by (simp add: power_int_diff)
  also have "\<dots> = 2 ^ nat (e - e')"
    using le by (simp add: power_int_def)
  finally have "of_int m * (2 powi e / 2 powi e') = (of_int m :: rat) * 2 ^ nat (e - e')"
    by simp
  then have q: "x / 2 powi e' = of_int (m * 2 ^ nat (e - e'))"
    by (simp add: x_def)
  have r: "of_int (roundHalfEven (x / 2 powi e')) * 2 powi e' = x"
  proof -
    have "of_int (roundHalfEven (x / 2 powi e')) * 2 powi e' = x / 2 powi e' * 2 powi e'"
      unfolding q roundHalfEven_of_int by simp
    then show ?thesis by simp
  qed
  from fl assms(3) have "floorLog2 \<bar>x\<bar> < 1024" by simp
  with x0 r show ?thesis
    unfolding x_def[symmetric] by (simp add: roundDouble_def Let_def e'_def[symmetric])
qed

lemma roundDouble_examples:
  "roundDouble (1 / 10) = Finite (3602879701896397 / 36028797018963968)"
  "roundDouble 9007199254740993 = Finite 9007199254740992"
  "roundDouble 9007199254740995 = Finite 9007199254740996"
  "roundDouble (- 7 / 3) = Finite (- (5254199565265579 / 2251799813685248))"
  by code_simp+

lemma gridUnit_pos: "0 < gridUnit"
  unfolding gridUnit_def by (rule zero_less_power_int) simp

lemma onGrid_scaled:
  assumes "- 1074 \<le> e"
  shows "onGrid (of_int m * 2 powi e)"
proof -
  have "(2::rat) powi (e + 1074 + (- 1074)) = 2 powi (e + 1074) * 2 powi (- 1074)"
    by (rule power_int_add) simp
  moreover have "e + 1074 + (- 1074) = e" by simp
  ultimately have "(2::rat) powi e = 2 powi (e + 1074) * gridUnit"
    by (simp only: gridUnit_def)
  also have "(2::rat) powi (e + 1074) = of_int (2 ^ nat (e + 1074))"
    using assms by (simp add: power_int_def)
  finally have "of_int m * 2 powi e = (of_int (m * 2 ^ nat (e + 1074)) :: rat) * gridUnit"
    by simp
  then show ?thesis unfolding onGrid_def by blast
qed

lemma onGrid_of_int: "onGrid (of_int n)"
  using onGrid_scaled[of 0 n] by simp

lemma onGrid_diff: "onGrid a \<Longrightarrow> onGrid b \<Longrightarrow> onGrid (a - b)"
proof -
  assume "onGrid a" "onGrid b"
  then obtain k l :: int where "a = of_int k * gridUnit" "b = of_int l * gridUnit"
    unfolding onGrid_def by blast
  then have "a - b = of_int (k - l) * gridUnit"
    by (simp add: algebra_simps)
  then show ?thesis unfolding onGrid_def by blast
qed

lemma roundDouble_cases:
  assumes "x \<noteq> 0"
  obtains m e where "- 1074 \<le> e" "e = max (floorLog2 \<bar>x\<bar> - 52) (- 1074)"
    "m = roundHalfEven (x / 2 powi e)"
    "roundDouble x = Finite (of_int m * 2 powi e)
     \<or> (0 < m \<and> roundDouble x = PosInfinity) \<or> (m < 0 \<and> roundDouble x = NegInfinity)"
proof -
  define e where "e = max (floorLog2 \<bar>x\<bar> - 52) (- 1074)"
  define u :: rat where "u = 2 powi e"
  define m where "m = roundHalfEven (x / u)"
  have p: "0 < u" by (simp add: u_def)
  have r: "roundDouble x =
      (if of_int m * u = 0 \<or> floorLog2 \<bar>of_int m * u\<bar> < 1024 then Finite (of_int m * u)
       else if 0 < of_int m * u then PosInfinity else NegInfinity)"
    using assms p
    by (simp add: roundDouble_def Let_def e_def[symmetric] u_def[symmetric] m_def[symmetric])
  have s: "0 < of_int m * u \<longleftrightarrow> 0 < m" "of_int m * u = 0 \<longleftrightarrow> m = 0"
    using p by (simp_all add: zero_less_mult_iff)
  have "roundDouble x = Finite (of_int m * u)
     \<or> (0 < m \<and> roundDouble x = PosInfinity) \<or> (m < 0 \<and> roundDouble x = NegInfinity)"
    unfolding r s by auto
  moreover have "- 1074 \<le> e" by (simp add: e_def)
  ultimately show ?thesis using that[of e m] e_def m_def u_def by blast
qed

lemma roundDouble_doubleValued: "doubleValued (roundDouble x)"
proof (cases "x = 0")
  case True
  then show ?thesis
    using onGrid_of_int[of 0] by (simp add: roundDouble_def doubleValued_def)
next
  case False
  from roundDouble_cases[OF this] obtain m e where
    e: "- 1074 \<le> e"
    and r: "roundDouble x = Finite (of_int m * 2 powi e)
     \<or> (0 < m \<and> roundDouble x = PosInfinity) \<or> (m < 0 \<and> roundDouble x = NegInfinity)"
    by blast
  from r onGrid_scaled[OF e, of m] show ?thesis
    by (auto simp: doubleValued_def)
qed

lemma roundHalfEven_bounds: "\<lfloor>x\<rfloor> \<le> roundHalfEven x \<and> roundHalfEven x \<le> \<lfloor>x\<rfloor> + 1"
  by (simp add: roundHalfEven_def Let_def)

lemma roundDouble_positive:
  assumes "onGrid z"
  shows "numPositive (roundDouble z) \<longleftrightarrow> 0 < z"
proof (cases "z = 0")
  case True
  then show ?thesis by (simp add: roundDouble_def numPositive_def)
next
  case False
  from roundDouble_cases[OF this] obtain m e where
    e: "- 1074 \<le> e" "e = max (floorLog2 \<bar>z\<bar> - 52) (- 1074)"
    and m: "m = roundHalfEven (z / 2 powi e)"
    and r: "roundDouble z = Finite (of_int m * 2 powi e)
     \<or> (0 < m \<and> roundDouble z = PosInfinity) \<or> (m < 0 \<and> roundDouble z = NegInfinity)"
    by blast
  define u :: rat where "u = 2 powi e"
  have p: "0 < u" by (simp add: u_def)
  have s: "0 < of_int m * u \<longleftrightarrow> 0 < m"
    using p by (simp add: zero_less_mult_iff)
  have pos: "numPositive (roundDouble z) \<longleftrightarrow> 0 < m"
    using r s unfolding u_def[symmetric] by (auto simp: numPositive_def)
  show ?thesis
  proof (cases "0 < z")
    case True
    have "1 \<le> z / u"
    proof (cases "e = - 1074")
      case True
      from assms obtain k :: int where k: "z = of_int k * gridUnit"
        unfolding onGrid_def by blast
      with \<open>0 < z\<close> gridUnit_pos have "0 < (of_int k :: rat)" by (simp add: zero_less_mult_iff)
      then have "1 \<le> k" by simp
      then have "(1::rat) \<le> of_int k" by simp
      moreover have "u = gridUnit" by (simp only: u_def True gridUnit_def)
      ultimately show ?thesis using k gridUnit_pos by simp
    next
      case False
      with e have ee: "e = floorLog2 \<bar>z\<bar> - 52" by simp
      from floorLog2_binade[of "\<bar>z\<bar>"] \<open>0 < z\<close> have "2 powi floorLog2 z \<le> z" by simp
      moreover have "(2::rat) powi floorLog2 z = u * 2 ^ 52"
        using \<open>0 < z\<close> by (simp add: u_def ee power_int_diff)
      ultimately have "u * 2 ^ 52 \<le> z" by simp
      then have "(2::rat) ^ 52 \<le> z / u" using p by (simp add: field_simps)
      then show ?thesis by simp
    qed
    then have "1 \<le> \<lfloor>z / u\<rfloor>" by simp
    moreover have "\<lfloor>z / u\<rfloor> \<le> roundHalfEven (z / u)"
      using roundHalfEven_bounds[of "z / u"] by blast
    ultimately have "0 < roundHalfEven (z / u)" by linarith
    then have "0 < m" unfolding m u_def .
    with pos True show ?thesis by simp
  next
    case False
    with \<open>z \<noteq> 0\<close> have "z < 0" by simp
    then have "z / u < 0" using p by (simp add: field_simps)
    then have "\<lfloor>z / u\<rfloor> \<le> - 1" by (simp add: floor_le_iff)
    moreover have "roundHalfEven (z / u) \<le> \<lfloor>z / u\<rfloor> + 1"
      using roundHalfEven_bounds[of "z / u"] by blast
    ultimately have "roundHalfEven (z / u) \<le> 0" by linarith
    then have "m \<le> 0" unfolding m u_def .
    with pos False show ?thesis by simp
  qed
qed

subsection \<open>Sorting, interleaving and truncation\<close>

lemma maxPerCategory_eq: "maxPerCategory limit = (limit + 3) div 4"
proof -
  have "\<lceil>(of_nat limit :: rat) / 4\<rceil> = - (- int limit div 4)"
    using ceiling_divide_eq_div[of "int limit" 4, where ?'a = rat] by simp
  then have "maxPerCategory limit = nat (- (- int limit div 4))"
    by (simp add: maxPerCategory_def)
  also have "- (- int limit div 4) = (int limit + 3) div 4"
    by presburger
  also have "nat ((int limit + 3) div 4) = (limit + 3) div 4"
    by (simp add: nat_div_distrib nat_add_distrib)
  finally show ?thesis .
qed

lemma set_sortBy: "set (sortBy cmp xs) = set xs"
  using mset_sortBy[of cmp xs] by (metis set_mset_mset)

lemma filter_sortBy_length:
  "length (filter P (sortBy cmp xs)) = length (filter P xs)"
proof -
  have "mset (filter P (sortBy cmp xs)) = mset (filter P xs)"
    by (simp add: mset_sortBy)
  then show ?thesis by (metis size_mset)
qed

lemma numLe_trans: "numLe a b \<Longrightarrow> numLe b c \<Longrightarrow> numLe a c"
  by (cases a; cases b; cases c) simp_all

lemma literal_values:
  "roundDouble (1 / 2) = Finite (1 / 2)"
  "roundDouble (3 / 10) = Finite (5404319552844595 / 18014398509481984)"
  "roundDouble (1 / 5) = Finite (3602879701896397 / 18014398509481984)"
  by code_simp+

lemma plus_rounded_doubleValued: "doubleValued (numPlus (Finite a) (roundDouble w))"
proof (cases "roundDouble w")
  case NaN
  with roundDouble_doubleValued[of w] show ?thesis by (simp add: doubleValued_def)
next
  case NegInfinity
  then show ?thesis by (simp add: doubleValued_def)
next
  case (Finite v)
  with roundDouble_doubleValued[of "a + v"] show ?thesis by simp
next
  case PosInfinity
  then show ?thesis by (simp add: doubleValued_def)
qed

lemma integer_doubleValued: "doubleValued (Finite (of_int k))"
  by (simp add: doubleValued_def onGrid_of_int)

lemma item_relevance_doubleValued:
  "doubleValued (relevance (trackItem lc q t))"
  "doubleValued (relevance (artistItem lc q a))"
  "doubleValued (relevance (albumItem lc q b))"
  "doubleValued (relevance (playlistItem lc q p))"
  by (simp_all add: trackItem_def artistItem_def albumItem_def playlistItem_def literal_values
      plus_rounded_doubleValued integer_doubleValued)

lemma processTracks_doubleValued:
  "x \<in> set (processTracks lc q items) \<Longrightarrow> doubleValued (relevance x)"
  by (auto simp: processTracks_def List.map_filter_def item_relevance_doubleValued)

lemma resultsByType_doubleValued:
  "x \<in> set (categoryOf ty (resultsByType lc query data)) \<Longrightarrow> doubleValued (relevance x)"
  by (cases ty)
     (auto simp: categoryOf_def resultsByType_def Let_def set_sortBy item_relevance_doubleValued
        dest: processTracks_doubleValued)

lemma set_interleave:
  "x \<in> set (interleave limit r) \<Longrightarrow> \<exists>ty. x \<in> set (categoryOf ty r)"
proof -
  assume "x \<in> set (interleave limit r)"
  then obtain i where "x \<in> set (interleaveRow r i)"
    by (auto simp: interleave_def)
  then consider "x \<in> set (tracks r)" | "x \<in> set (artists r)" | "x \<in> set (albums r)"
    | "x \<in> set (playlists r)"
    by (auto simp: interleaveRow_def pushIfPresent_def split: if_splits)
  then show ?thesis
  proof cases
    case 1
    then have "x \<in> set (categoryOf Track r)" by (simp add: categoryOf_def)
    then show ?thesis ..
  next
    case 2
    then have "x \<in> set (categoryOf Artist r)" by (simp add: categoryOf_def)
    then show ?thesis ..
  next
    case 3
    then have "x \<in> set (categoryOf Album r)" by (simp add: categoryOf_def)
    then show ?thesis ..
  next
    case 4
    then have "x \<in> set (categoryOf Playlist r)" by (simp add: categoryOf_def)
    then show ?thesis ..
  qed
qed

lemma relevanceCmp_sign:
  assumes "doubleValued (relevance x)" and "doubleValued (relevance y)"
  shows "numPositive (relevanceCmp x y) \<Longrightarrow> numLe (relevance x) (relevance y)"
    and "\<not> numPositive (relevanceCmp x y) \<Longrightarrow> numLe (relevance y) (relevance x)"
proof -
  have f: "numPositive (numMinus (Finite b) (Finite a)) \<longleftrightarrow> a < b" if "onGrid a" "onGrid b" for a b
    using roundDouble_positive[OF onGrid_diff[OF that(2,1)]] by (simp add: numMinus_def)
  show "numPositive (relevanceCmp x y) \<Longrightarrow> numLe (relevance x) (relevance y)"
    using assms f
    by (cases "relevance x"; cases "relevance y")
       (auto simp: relevanceCmp_def doubleValued_def numMinus_def numPositive_def)
  show "\<not> numPositive (relevanceCmp x y) \<Longrightarrow> numLe (relevance y) (relevance x)"
    using assms f
    by (cases "relevance x"; cases "relevance y")
       (auto simp: relevanceCmp_def doubleValued_def numMinus_def numPositive_def)
qed

lemma set_insertBy: "set (insertBy cmp x ys) = insert x (set ys)"
  using mset_insertBy[of cmp x ys] by (metis set_mset_mset set_mset_add_mset_insert)

lemma sorted_insertBy_relevance:
  assumes "sorted_wrt (\<lambda>a b. numGe (relevance a) (relevance b)) ys"
    and "\<forall>z \<in> set (x # ys). doubleValued (relevance z)"
  shows "sorted_wrt (\<lambda>a b. numGe (relevance a) (relevance b)) (insertBy relevanceCmp x ys)"
  using assms
proof (induction ys)
  case Nil
  then show ?case by simp
next
  case (Cons y ys)
  from Cons.prems(2) have d: "doubleValued (relevance x)" "doubleValued (relevance y)"
    by simp_all
  show ?case
  proof (cases "numPositive (relevanceCmp x y)")
    case False
    from relevanceCmp_sign(2)[OF d False] have xy: "numLe (relevance y) (relevance x)" .
    have "numLe (relevance z) (relevance x)" if "z \<in> set ys" for z
    proof -
      from Cons.prems(1) that have "numLe (relevance z) (relevance y)"
        by (simp add: numGe_def)
      with xy show ?thesis by (blast intro: numLe_trans)
    qed
    with xy Cons.prems(1) False show ?thesis by (simp add: numGe_def)
  next
    case True
    from relevanceCmp_sign(1)[OF d True] have yx: "numLe (relevance x) (relevance y)" .
    have "sorted_wrt (\<lambda>a b. numGe (relevance a) (relevance b)) (insertBy relevanceCmp x ys)"
      using Cons.IH Cons.prems by simp
    with yx Cons.prems(1) True show ?thesis
      by (simp add: set_insertBy numGe_def)
  qed
qed

lemma sorted_sortBy_relevance:
  "\<forall>z \<in> set xs. doubleValued (relevance z) \<Longrightarrow>
   sorted_wrt (\<lambda>a b. numGe (relevance a) (relevance b)) (sortBy relevanceCmp xs)"
proof (induction xs)
  case Nil
  then show ?case by (simp add: sortBy_def)
next
  case (Cons x xs)
  then have "sorted_wrt (\<lambda>a b. numGe (relevance a) (relevance b)) (sortBy relevanceCmp xs)"
    by simp
  moreover from Cons.prems have "\<forall>z \<in> set (x # sortBy relevanceCmp xs). doubleValued (relevance z)"
    by (simp add: set_sortBy)
  ultimately have "sorted_wrt (\<lambda>a b. numGe (relevance a) (relevance b))
      (insertBy relevanceCmp x (sortBy relevanceCmp xs))"
    by (rule sorted_insertBy_relevance)
  then show ?case by (simp add: sortBy_def)
qed

lemma sorted_wrt_take: "sorted_wrt R xs \<Longrightarrow> sorted_wrt R (take n xs)"
  by (metis append_take_drop_id sorted_wrt_append)

lemma concat_pushIfPresent: "concat (map (pushIfPresent xs) [0 ..< m]) = take m xs"
proof (induction m)
  case 0
  then show ?case by simp
next
  case (Suc m)
  show ?case
  proof (cases "m < length xs")
    case True
    then show ?thesis using Suc by (simp add: pushIfPresent_def take_Suc_conv_app_nth)
  next
    case False
    then show ?thesis using Suc by (simp add: pushIfPresent_def)
  qed
qed

lemma filter_interleaveRow:
  assumes "wellTyped r"
  shows "filter (\<lambda>x. itype x = ty) (interleaveRow r i) = pushIfPresent (categoryOf ty r) i"
proof -
  have t: "\<forall>x \<in> set (tracks r). itype x = Track" "\<forall>x \<in> set (artists r). itype x = Artist"
    "\<forall>x \<in> set (albums r). itype x = Album" "\<forall>x \<in> set (playlists r). itype x = Playlist"
    using assms [unfolded wellTyped_def, rule_format, of _ Track]
      assms [unfolded wellTyped_def, rule_format, of _ Artist]
      assms [unfolded wellTyped_def, rule_format, of _ Album]
      assms [unfolded wellTyped_def, rule_format, of _ Playlist]
    by (simp_all add: categoryOf_def)
  show ?thesis
    using t by (cases ty) (simp_all add: interleaveRow_def categoryOf_def pushIfPresent_def)
qed

lemma filter_interleave:
  assumes "wellTyped r"
  shows "filter (\<lambda>x. itype x = ty) (interleave limit r) = take (maxPerCategory limit) (categoryOf ty r)"
proof -
  have "filter (\<lambda>x. itype x = ty) (interleave limit r)
          = concat (map (\<lambda>i. filter (\<lambda>x. itype x = ty) (interleaveRow r i)) [0 ..< maxPerCategory limit])"
    by (simp add: interleave_def filter_concat o_def)
  also have "\<dots> = concat (map (pushIfPresent (categoryOf ty r)) [0 ..< maxPerCategory limit])"
    by (simp add: filter_interleaveRow[OF assms])
  finally show ?thesis by (simp add: concat_pushIfPresent)
qed

lemma itype_processTracks: "x \<in> set (processTracks lc q items) \<Longrightarrow> itype x = Track"
  by (auto simp: processTracks_def List.map_filter_def trackItem_def)

lemma wellTyped_resultsByType: "wellTyped (resultsByType toLowerCase query data)"
proof -
  have "itype x = ty" if "x \<in> set (categoryOf ty (resultsByType toLowerCase query data))" for ty x
    using that
    by (cases ty)
       (auto simp: categoryOf_def resultsByType_def Let_def set_sortBy artistItem_def
          albumItem_def playlistItem_def dest: itype_processTracks)
  then show ?thesis by (simp add: wellTyped_def)
qed

lemma category_count_bound:
  assumes "wellTyped r"
  shows "length (filter (\<lambda>x. itype x = ty) (combinedResults limit r)) \<le> maxPerCategory limit"
proof -
  have "mset (filter (\<lambda>x. itype x = ty) (take limit (sortBy relevanceCmp (interleave limit r))))
          \<subseteq># mset (filter (\<lambda>x. itype x = ty) (sortBy relevanceCmp (interleave limit r)))"
    by (metis append_take_drop_id filter_append mset_append mset_subset_eq_add_left)
  then have "length (filter (\<lambda>x. itype x = ty) (combinedResults limit r))
          \<le> length (filter (\<lambda>x. itype x = ty) (sortBy relevanceCmp (interleave limit r)))"
    unfolding combinedResults_def by (metis size_mset size_mset_mono)
  also have "\<dots> = length (filter (\<lambda>x. itype x = ty) (interleave limit r))"
    by (rule filter_sortBy_length)
  also have "\<dots> = length (take (maxPerCategory limit) (categoryOf ty r))"
    by (simp add: filter_interleave[OF assms])
  also have "\<dots> \<le> maxPerCategory limit" by simp
  finally show ?thesis .
qed

text \<open>
  C8. When the provider answers, \<open>searchMultiType\<close> returns the per-category lists
  and the combined list built from them: the interleaving takes from each category exactly
  its first \<open>ceil(limit / 4)\<close> items (fewer when the category has fewer), in their order;
  the combined list is the first \<open>limit\<close> items of the stable re-sort of the
  interleaving by descending relevance, the re-sort being a permutation. So the combined
  list has at most \<open>limit\<close> elements, is sorted by descending relevance, and holds at
  most \<open>ceil(limit / 4)\<close> items of each category.
\<close>

theorem combined_results:
  assumes "api (searchRequestOf query limit) = Inr data"
  shows "\<exists>out. searchMultiType toLowerCase api query limit = Inr out
     \<and> by_type out = resultsByType toLowerCase query data
     \<and> (\<forall>ty. filter (\<lambda>x. itype x = ty) (interleave limit (by_type out))
               = take (maxPerCategory limit) (categoryOf ty (by_type out)))
     \<and> mset (sortBy relevanceCmp (interleave limit (by_type out))) = mset (interleave limit (by_type out))
     \<and> results out = take limit (sortBy relevanceCmp (interleave limit (by_type out)))
     \<and> length (results out) \<le> limit
     \<and> sorted_wrt (\<lambda>a b. numGe (relevance a) (relevance b)) (results out)
     \<and> (\<forall>ty. length (filter (\<lambda>x. itype x = ty) (results out)) \<le> maxPerCategory limit)
     \<and> maxPerCategory limit = nat \<lceil>(of_nat limit :: rat) / 4\<rceil>"
proof -
  define r where "r = resultsByType toLowerCase query data"
  define out where "out = \<lparr> results = combinedResults limit r, by_type = r \<rparr>"
  have w: "wellTyped r" unfolding r_def by (rule wellTyped_resultsByType)
  have 1: "searchMultiType toLowerCase api query limit = Inr out"
    using assms by (simp add: searchMultiType_def out_def r_def Let_def)
  have 2: "by_type out = resultsByType toLowerCase query data" by (simp add: out_def r_def)
  have 3: "\<forall>ty. filter (\<lambda>x. itype x = ty) (interleave limit (by_type out))
               = take (maxPerCategory limit) (categoryOf ty (by_type out))"
    using filter_interleave[OF w] by (simp add: out_def)
  have 4: "mset (sortBy relevanceCmp (interleave limit (by_type out))) = mset (interleave limit (by_type out))"
    by (rule mset_sortBy)
  have 5: "results out = take limit (sortBy relevanceCmp (interleave limit (by_type out)))"
    by (simp add: out_def combinedResults_def)
  have 6: "length (results out) \<le> limit" by (simp add: 5)
  have "doubleValued (relevance z)" if "z \<in> set (interleave limit (by_type out))" for z
    using set_interleave[OF that] resultsByType_doubleValued by (auto simp: 2)
  then have 7: "sorted_wrt (\<lambda>a b. numGe (relevance a) (relevance b)) (results out)"
    unfolding 5 by (intro sorted_wrt_take sorted_sortBy_relevance) simp
  have 8: "\<forall>ty. length (filter (\<lambda>x. itype x = ty) (results out)) \<le> maxPerCategory limit"
    using category_count_bound[OF w] by (simp add: out_def)
  have 9: "maxPerCategory limit = nat \<lceil>(of_nat limit :: rat) / 4\<rceil>"
    by (simp add: maxPerCategory_def)
  from 1 2 3 4 5 6 7 8 9 show ?thesis by blast
qed

lemma length_pushed: "sum_list (map (\<lambda>i. length (pushIfPresent xs i)) [0 ..< m]) = min m (length xs)"
proof -
  have "sum_list (map (\<lambda>i. length (pushIfPresent xs i)) [0 ..< m])
          = length (concat (map (pushIfPresent xs) [0 ..< m]))"
    by (simp add: length_concat o_def)
  then show ?thesis by (simp add: concat_pushIfPresent min.commute)
qed

lemma length_interleave:
  "length (interleave limit r)
     = min (maxPerCategory limit) (length (tracks r)) + min (maxPerCategory limit) (length (artists r))
       + min (maxPerCategory limit) (length (albums r)) + min (maxPerCategory limit) (length (playlists r))"
proof -
  have "length (interleave limit r)
          = sum_list (map (\<lambda>i. length (pushIfPresent (tracks r) i) + length (pushIfPresent (artists r) i)
                + length (pushIfPresent (albums r) i) + length (pushIfPresent (playlists r) i))
              [0 ..< maxPerCategory limit])"
    by (simp add: interleave_def interleaveRow_def length_concat o_def add.assoc)
  then show ?thesis
    by (simp add: sum_list_addf length_pushed)
qed

lemma queen_categories:
  "length (tracks (resultsByType lowerBasicLatin (str ''Queen'') queenData)) = 10"
  "length (artists (resultsByType lowerBasicLatin (str ''Queen'') queenData)) = 5"
  "length (albums (resultsByType lowerBasicLatin (str ''Queen'') queenData)) = 3"
  "length (playlists (resultsByType lowerBasicLatin (str ''Queen'') queenData)) = 2"
proof -
  have "length (groupTracks lowerBasicLatin (orEmpty (data_tracks queenData))) = 10"
    by code_simp
  moreover have "length (processTracks lc q items) = length (groupTracks lc items)" for lc q items
    using processTracks_one_per_group[of lc q items] by (metis length_map)
  ultimately show "length (tracks (resultsByType lowerBasicLatin (str ''Queen'') queenData)) = 10"
    by (simp add: resultsByType_def length_sortBy Let_def)
  show "length (artists (resultsByType lowerBasicLatin (str ''Queen'') queenData)) = 5"
    "length (albums (resultsByType lowerBasicLatin (str ''Queen'') queenData)) = 3"
    "length (playlists (resultsByType lowerBasicLatin (str ''Queen'') queenData)) = 2"
    by (simp_all add: resultsByType_def length_sortBy queenData_def orEmpty_def Let_def)
qed

lemma queen_length: "length (combinedResults 8 (resultsByType lowerBasicLatin (str ''Queen'') queenData)) = 8"
  by (simp add: combinedResults_def length_sortBy length_interleave queen_categories
      maxPerCategory_eq)

theorem combined_results_witness:
  "\<exists>out. searchMultiType lowerBasicLatin queenApi (str ''Queen'') 8 = Inr out
      \<and> length (results out) = 8
      \<and> sorted_wrt (\<lambda>a b. numGe (relevance a) (relevance b)) (results out)
      \<and> length (filter (\<lambda>x. itype x = Track) (results out)) \<le> 2"
proof -
  have h: "queenApi (searchRequestOf (str ''Queen'') 8) = Inr queenData"
    by (simp add: queenApi_def)
  have m: "maxPerCategory 8 = 2"
    by (simp add: maxPerCategory_eq)
  from combined_results[of queenApi "str ''Queen''" 8 queenData lowerBasicLatin, OF h] obtain out where
    o: "searchMultiType lowerBasicLatin queenApi (str ''Queen'') 8 = Inr out"
      "by_type out = resultsByType lowerBasicLatin (str ''Queen'') queenData"
      "results out = take 8 (sortBy relevanceCmp (interleave 8 (by_type out)))"
      "sorted_wrt (\<lambda>a b. numGe (relevance a) (relevance b)) (results out)"
      "\<forall>ty. length (filter (\<lambda>x. itype x = ty) (results out)) \<le> maxPerCategory 8"
    by blast
  have "length (results out) = 8"
    using queen_length o(2,3) by (simp add: combinedResults_def)
  with o m show ?thesis by auto
qed

subsection \<open>The fetch limit of the combined query\<close>

text \<open>
  C2, as stated, fails: the fetch limit is not independent of the caller's limit. A
  caller's limit of 10 sends a fetch limit of 10, a caller's limit of 20 sends 20.
\<close>

theorem fetch_limit_depends_on_limit:
  "req_limit (searchRequestOf (str ''Queen'') 10) = 10
   \<and> req_limit (searchRequestOf (str ''Queen'') 20) = 20
   \<and> req_limit (searchRequestOf (str ''Queen'') 10) \<noteq> req_limit (searchRequestOf (str ''Queen'') 20)"
  by (simp add: searchRequestOf_def searchLimit_def)

text \<open>
  C2, amended. \<open>searchMultiType\<close> reads the provider through one request only: the
  query, the four categories, and the per-category fetch limit \<open>min limit 50\<close> (two
  providers that answer this request alike give the same result). The fetch limit is never
  above 50; it is the caller's limit when that is at most 50, and 50 for every larger one.
\<close>

theorem fetch_limit_capped:
  assumes "api \<lparr> req_q = query, req_types = [Track, Artist, Album, Playlist],
                 req_market = ''IT'', req_limit = min limit 50 \<rparr>
           = api' \<lparr> req_q = query, req_types = [Track, Artist, Album, Playlist],
                    req_market = ''IT'', req_limit = min limit 50 \<rparr>"
  shows "searchMultiType toLowerCase api query limit = searchMultiType toLowerCase api' query limit
     \<and> req_limit (searchRequestOf query limit) \<le> 50
     \<and> (limit \<le> 50 \<longrightarrow> req_limit (searchRequestOf query limit) = limit)
     \<and> (50 \<le> limit \<longrightarrow> req_limit (searchRequestOf query limit) = 50)"
  using assms by (simp add: searchMultiType_def searchRequestOf_def searchLimit_def)

theorem fetch_limit_capped_witness:
  "searchMultiType lowerBasicLatin queenApi (str ''Queen'') 8 = searchMultiType lowerBasicLatin limitEightApi (str ''Queen'') 8
   \<and> req_limit (searchRequestOf (str ''Queen'') 8) = 8"
  using fetch_limit_capped [of queenApi "str ''Queen''" 8 limitEightApi lowerBasicLatin]
  by (simp add: limitEightApi_def searchRequestOf_def searchLimit_def)

subsection \<open>The media resolver\<close>













text \<open>
  A target that is falsy (missing, \<open>NaN\<close> or 0) takes the branch without a duration
  filter: the function then selects the first valid candidate.
\<close>

lemma falsy_target_counts_as_missing:
  "selectVideo (Some (Finite 0)) (v # vs) = Inr v"
  "selectVideo (Some NaN) (v # vs) = Inr v"
  "selectVideo None (v # vs) = Inr v"
  by (simp_all add: selectVideo_def suppliedTarget_def)

text \<open>
  The edges of the window are the rounded results. For a target of 50010 ms the upper
  edge is the double below 55.011 (the exact sum of 50.01 and 5.001), so a candidate
  whose duration is the double nearest to 55.011 s is outside the window.
\<close>

lemma rounded_window_edge:
  "numPlus (targetSecondsOf (Finite 50010)) (toleranceOf (targetSecondsOf (Finite 50010)))
     = Finite (1935527492978737 / 35184372088832)"
  "roundDouble (55011 / 1000) = Finite (7742109971914949 / 140737488355328)"
  "\<not> durationMatches (targetSecondsOf (Finite 50010))
        (candidate ''v55'' (7742109971914949 / 140737488355328))"
  by code_simp+

subsection \<open>The token lifecycle\<close>

lemma truthyString_Some: "truthyString x = Some rt \<Longrightarrow> x = Some rt \<and> rt \<noteq> []"
  by (auto simp: truthyString_def split: option.splits if_splits)

lemma getUserTokens_fresh:
  assumes "sess s = Some session" and "session_tokens session = Some tk"
    and "expiresAt tk > now + 60000"
  shows "getUserTokens now now' outcome s = (Some tk, s)"
  using assms by (simp add: getUserTokens_def getUserTokensStart_def)

lemma getUserTokensStart_expired:
  assumes "sess s = Some session" and "session_tokens session = Some tk"
    and "expiresAt tk \<le> now + 60000"
  shows "getUserTokensStart now s =
           (case truthyString (refreshToken tk) of
              Some rt \<Rightarrow> Waiting rt (s\<lparr> refreshCalls := refreshCalls s @ [rt] \<rparr>)
            | None \<Rightarrow> Done None (s\<lparr> sess := Some (session\<lparr> session_tokens := None \<rparr>) \<rparr>))"
  using assms
  by (simp add: getUserTokensStart_def refreshStart_def truthy_def truthyString_def
      split: option.splits)

lemma refreshResume_calls: "refreshCalls (snd (refreshResume now' rt outcome s)) = refreshCalls s"
  by (auto simp: refreshResume_def setUserTokens_def deleteTokens_def Let_def
      split: fetchOutcome.splits jsonBody.splits option.splits)

lemma getUserTokensResume_calls:
  "refreshCalls (snd (getUserTokensResume now' rt outcome s)) = refreshCalls s"
  using refreshResume_calls[of now' rt outcome s]
  by (auto simp: getUserTokensResume_def split: prod.splits sum.splits)

lemma getUserTokens_expired_calls:
  assumes "sess s = Some session" and "session_tokens session = Some tk"
    and "expiresAt tk \<le> now + 60000"
  shows "truthyString (refreshToken tk) = Some rt \<Longrightarrow>
           refreshCalls (snd (getUserTokens now now' outcome s)) = refreshCalls s @ [rt]"
    and "truthyString (refreshToken tk) = None \<Longrightarrow> fst (getUserTokens now now' outcome s) = None"
  using getUserTokensStart_expired[OF assms] getUserTokensResume_calls
  by (simp_all add: getUserTokens_def)

text \<open>
  C5. For a session holding a Credential Record: when the record's expiry is more than
  60 seconds after the current time, \<open>getUserTokens\<close> returns the stored tokens and
  changes nothing (no refresh request is sent); when it is not, every call that returns
  tokens has sent a refresh request first. So a call that returns tokens without having
  sent a refresh request returns the stored record, whose expiry is more than 60 seconds
  away.
\<close>

theorem token_safety_margin:
  assumes "sess s = Some session" and "session_tokens session = Some tk"
  shows "(expiresAt tk > now + 60000 \<longrightarrow> getUserTokens now now' outcome s = (Some tk, s))
     \<and> (expiresAt tk \<le> now + 60000 \<longrightarrow>
          (\<forall>tk' s'. getUserTokens now now' outcome s = (Some tk', s') \<longrightarrow>
             (\<exists>rt. truthyString (refreshToken tk) = Some rt
                \<and> refreshCalls s' = refreshCalls s @ [rt])))
     \<and> (\<forall>tk' s'. getUserTokens now now' outcome s = (Some tk', s') \<and> refreshCalls s' = refreshCalls s
           \<longrightarrow> tk' = tk \<and> s' = s \<and> expiresAt tk' > now + 60000)"
proof -
  have a: "expiresAt tk > now + 60000 \<longrightarrow> getUserTokens now now' outcome s = (Some tk, s)"
    using getUserTokens_fresh[OF assms] by simp
  have b: "\<exists>rt. truthyString (refreshToken tk) = Some rt \<and> refreshCalls s' = refreshCalls s @ [rt]"
    if "expiresAt tk \<le> now + 60000" "getUserTokens now now' outcome s = (Some tk', s')" for tk' s'
  proof (cases "truthyString (refreshToken tk)")
    case None
    from getUserTokens_expired_calls(2)[OF assms that(1) None, of now' outcome] that(2)
    show ?thesis by simp
  next
    case (Some rt)
    from getUserTokens_expired_calls(1)[OF assms that(1) Some, of now' outcome] that(2) Some
    show ?thesis by simp
  qed
  have c: "tk' = tk \<and> s' = s \<and> expiresAt tk' > now + 60000"
    if "getUserTokens now now' outcome s = (Some tk', s')" "refreshCalls s' = refreshCalls s" for tk' s'
  proof (cases "expiresAt tk > now + 60000")
    case True
    with a that(1) show ?thesis by simp
  next
    case False
    then have "expiresAt tk \<le> now + 60000" by simp
    from b[OF this that(1)] that(2) show ?thesis by auto
  qed
  from a b c show ?thesis by blast
qed

lemma expiredState_simps:
  "sess expiredState = Some \<lparr> session_id = ''sid'', session_tokens = Some expiredTokens, saves = 0 \<rparr>"
  "refreshCalls expiredState = []"
  "expiresAt expiredTokens = 1000000"
  "refreshToken expiredTokens = Some ''refresh-1''"
  "truthyString (refreshToken expiredTokens) = Some ''refresh-1''"
  by (simp_all add: expiredState_def expiredTokens_def truthyString_def)

lemma refresh_good_answer:
  "getUserTokens 1000000 1000005 goodAnswer expiredState =
     (Some \<lparr> accessToken = ''new-access'', refreshToken = Some ''refresh-1'',
              expiresAt = 4600005, scope = None \<rparr>,
      \<lparr> sess = Some \<lparr> session_id = ''sid'',
                       session_tokens = Some \<lparr> accessToken = ''new-access'',
                         refreshToken = Some ''refresh-1'', expiresAt = 4600005, scope = None \<rparr>,
                       saves = 1 \<rparr>,
        refreshCalls = [''refresh-1''] \<rparr>)"
  by (simp add: getUserTokens_def getUserTokensStart_def refreshStart_def getUserTokensResume_def
      refreshResume_def setUserTokens_def withRefreshToken_def currentTokens_def truthy_def
      truthyString_def responseOk_def goodAnswer_def expiredState_def expiredTokens_def Let_def)

theorem token_safety_margin_witness:
  "getUserTokens 0 0 goodAnswer expiredState = (Some expiredTokens, expiredState)
   \<and> map_option accessToken (fst (getUserTokens 1000000 1000005 goodAnswer expiredState))
       = Some ''new-access''
   \<and> refreshCalls (snd (getUserTokens 1000000 1000005 goodAnswer expiredState)) = [''refresh-1'']"
  using token_safety_margin [OF expiredState_simps(1), of expiredTokens 0 0 goodAnswer]
    token_safety_margin [OF expiredState_simps(1), of expiredTokens 1000000 1000005 goodAnswer]
  by (simp add: expiredState_simps refresh_good_answer)

lemma refreshUserAccessToken_waiting:
  assumes "sess s = Some session" and "session_tokens session = Some tk"
    and "truthyString (refreshToken tk) = Some rt"
  shows "refreshUserAccessToken now' outcome s =
           refreshResume now' rt outcome (s\<lparr> refreshCalls := refreshCalls s @ [rt] \<rparr>)"
  using assms by (simp add: refreshUserAccessToken_def refreshStart_def)

lemma getUserTokens_waiting:
  assumes "sess s = Some session" and "session_tokens session = Some tk"
    and "truthyString (refreshToken tk) = Some rt" and "expiresAt tk \<le> now + 60000"
  shows "getUserTokens now now' outcome s =
           getUserTokensResume now' rt outcome (s\<lparr> refreshCalls := refreshCalls s @ [rt] \<rparr>)"
  using getUserTokensStart_expired[OF assms(1,2,4)] assms(3) by (simp add: getUserTokens_def)

lemma refreshResume_rejected:
  assumes "rejectedByProvider outcome" and "sess s = Some session"
  shows "\<exists>status. refreshResume now' rt outcome s = (Inl (HttpError status), deleteTokens s)
           \<and> (status = 400 \<or> status = 401)"
proof (cases outcome)
  case FetchThrows
  with assms(1) show ?thesis by (simp add: rejectedByProvider_def)
next
  case (Response status body)
  with assms(1) have st: "status = 400 \<or> status = 401" and b: "body \<noteq> JsonRejects"
    by (simp_all add: rejectedByProvider_def)
  from st have "\<not> responseOk status" by (auto simp: responseOk_def)
  with st b Response show ?thesis
    by (cases body) (auto simp: refreshResume_def)
qed

lemma refreshResume_transient:
  assumes "transientFailure outcome"
  shows "\<exists>e. refreshResume now' rt outcome s = (Inl e, s)"
proof (cases outcome)
  case FetchThrows
  then show ?thesis by (simp add: refreshResume_def)
next
  case (Response status body)
  with assms show ?thesis
    by (cases body) (auto simp: transientFailure_def refreshResume_def split: if_splits)
qed

text \<open>
  C4, as stated, fails for a client error other than 400 and 401: the source deletes the
  record on these two statuses only. On a 403 (with the provider's JSON error object for a
  body) the caller gets \<open>null\<close> and the record is still in the session.
\<close>

theorem forbidden_keeps_record:
  "clientErrorStatus 403
   \<and> getUserTokens 1000000 1000005 (Response 403 errorBody) expiredState
       = (None, expiredState\<lparr> refreshCalls := [''refresh-1''] \<rparr>)
   \<and> currentTokens (snd (getUserTokens 1000000 1000005 (Response 403 errorBody) expiredState))
       = Some expiredTokens"
  by (simp add: clientErrorStatus_def getUserTokens_def getUserTokensStart_def refreshStart_def
      getUserTokensResume_def refreshResume_def currentTokens_def truthyString_def responseOk_def
      errorBody_def expiredState_def expiredTokens_def)

text \<open>
  C4, amended. For a session whose record is due for refresh and holds a refresh token:
  when the provider rejects the refresh with status 400 or 401 and a JSON body (its answer
  to an invalid, expired or revoked refresh token), the record is deleted,
  \<open>refreshUserAccessToken\<close> throws and the caller of \<open>getUserTokens\<close> gets
  \<open>null\<close>, the answer for a session without a record. On a network error, on any
  status that is neither a success nor 400 nor 401, and on a success whose body cannot be
  read, the caller gets \<open>null\<close> too, but the session and its record are unchanged,
  and a later call that the provider answers with a token returns the new token.
\<close>

theorem refresh_failure_policy:
  assumes "sess s = Some session" and "session_tokens session = Some tk"
    and "truthyString (refreshToken tk) = Some rt" and "expiresAt tk \<le> now + 60000"
  shows "(rejectedByProvider outcome \<longrightarrow>
            (\<exists>status s'. refreshUserAccessToken now' outcome s = (Inl (HttpError status), s')
                \<and> getUserTokens now now' outcome s = (None, s')
                \<and> currentTokens s' = None))
     \<and> (transientFailure outcome \<longrightarrow>
            (\<exists>e s'. refreshUserAccessToken now' outcome s = (Inl e, s')
                \<and> getUserTokens now now' outcome s = (None, s')
                \<and> sess s' = sess s \<and> currentTokens s' = Some tk))
     \<and> (transientFailure outcome
          \<and> truthyString (access_token td) = Some token \<and> now \<le> later \<longrightarrow>
            (\<exists>tk' s''. getUserTokens later now'' (Response 200 (JsonValue td))
                           (snd (getUserTokens now now' outcome s)) = (Some tk', s'')
                \<and> accessToken tk' = token
                \<and> expiresAt tk' = now'' + expires_in td * 1000))"
proof -
  define s1 where "s1 = s\<lparr> refreshCalls := refreshCalls s @ [rt] \<rparr>"
  have r: "refreshUserAccessToken now' outcome s = refreshResume now' rt outcome s1"
    for outcome now'
    unfolding s1_def by (rule refreshUserAccessToken_waiting[OF assms(1,2,3)])
  have g: "getUserTokens now now' outcome s = getUserTokensResume now' rt outcome s1"
    for outcome now'
    unfolding s1_def by (rule getUserTokens_waiting[OF assms])
  have s1: "sess s1 = Some session" by (simp add: s1_def assms(1))
  have 1: "\<exists>status s'. refreshUserAccessToken now' outcome s = (Inl (HttpError status), s')
                \<and> getUserTokens now now' outcome s = (None, s')
                \<and> currentTokens s' = None"
    if "rejectedByProvider outcome"
  proof -
    from refreshResume_rejected[OF that s1] obtain status where
      "refreshResume now' rt outcome s1 = (Inl (HttpError status), deleteTokens s1)"
      by blast
    moreover have "currentTokens (deleteTokens s1) = None"
      by (simp add: deleteTokens_def currentTokens_def s1)
    ultimately show ?thesis by (simp add: r g getUserTokensResume_def)
  qed
  have 2: "\<exists>e s'. refreshUserAccessToken now' outcome s = (Inl e, s')
                \<and> getUserTokens now now' outcome s = (None, s')
                \<and> sess s' = sess s \<and> currentTokens s' = Some tk"
    if "transientFailure outcome"
  proof -
    from refreshResume_transient[OF that] obtain e where
      "refreshResume now' rt outcome s1 = (Inl e, s1)"
      by blast
    moreover have "sess s1 = sess s \<and> currentTokens s1 = Some tk"
      by (simp add: s1_def currentTokens_def assms(1,2))
    ultimately show ?thesis by (simp add: r g getUserTokensResume_def)
  qed
  have 3: "\<exists>tk' s''. getUserTokens later now'' (Response 200 (JsonValue td))
                           (snd (getUserTokens now now' outcome s)) = (Some tk', s'')
                \<and> accessToken tk' = token
                \<and> expiresAt tk' = now'' + expires_in td * 1000"
    if "transientFailure outcome"
      "truthyString (access_token td) = Some token" "now \<le> later"
  proof -
    from that(3) assms(4) have l: "expiresAt tk \<le> later + 60000" by simp
    from 2[OF that(1)] obtain s' where
      s': "getUserTokens now now' outcome s = (None, s')" "sess s' = sess s"
      by blast
    from s'(2) assms(1) have a: "sess s' = Some session" by simp
    from truthyString_Some[OF that(2)] have n: "token \<noteq> []" by simp
    have "getUserTokens later now'' (Response 200 (JsonValue td)) s'
            = getUserTokensResume now'' rt (Response 200 (JsonValue td))
                (s'\<lparr> refreshCalls := refreshCalls s' @ [rt] \<rparr>)"
      by (rule getUserTokens_waiting[OF a assms(2,3) l])
    then show ?thesis
      using that(2) a n
      by (simp add: s'(1) getUserTokensResume_def refreshResume_def responseOk_def setUserTokens_def
          withRefreshToken_def currentTokens_def truthy_def truthyString_def Let_def)
  qed
  from 1 2 3 show ?thesis by blast
qed

theorem refresh_failure_policy_witness:
  "getUserTokens 1000000 1000005 (Response 400 errorBody) expiredState
     = (None, \<lparr> sess = Some \<lparr> session_id = ''sid'', session_tokens = None, saves = 1 \<rparr>,
                 refreshCalls = [''refresh-1''] \<rparr>)
   \<and> fst (getUserTokens 1000000 1000005 (Response 503 JsonRejects) expiredState) = None
   \<and> currentTokens (snd (getUserTokens 1000000 1000005 (Response 503 JsonRejects) expiredState))
       = Some expiredTokens
   \<and> currentTokens (snd (getUserTokens 1000000 1000005 FetchThrows expiredState))
       = Some expiredTokens
   \<and> (\<exists>tk' s''. getUserTokens 2000000 2000005 goodAnswer
                    (snd (getUserTokens 1000000 1000005 (Response 503 JsonRejects) expiredState))
                  = (Some tk', s'')
         \<and> accessToken tk' = ''new-access'')"
proof -
  have h: "session_tokens \<lparr> session_id = ''sid'', session_tokens = Some expiredTokens, saves = 0 \<rparr>
             = Some expiredTokens"
    "truthyString (refreshToken expiredTokens) = Some ''refresh-1''"
    "expiresAt expiredTokens \<le> 1000000 + 60000"
    by (simp_all add: expiredState_simps truthyString_def)
  note policy = refresh_failure_policy[OF expiredState_simps(1) h]
  have r: "rejectedByProvider (Response 400 errorBody)"
    by (simp add: rejectedByProvider_def errorBody_def)
  from policy[of "Response 400 errorBody" 1000005, THEN conjunct1] r
  obtain s' where
    s': "getUserTokens 1000000 1000005 (Response 400 errorBody) expiredState = (None, s')"
      "currentTokens s' = None"
    by blast
  have "snd (getUserTokens 1000000 1000005 (Response 400 errorBody) expiredState)
     = \<lparr> sess = Some \<lparr> session_id = ''sid'', session_tokens = None, saves = 1 \<rparr>,
         refreshCalls = [''refresh-1''] \<rparr>"
    by (simp add: getUserTokens_def getUserTokensStart_def refreshStart_def getUserTokensResume_def
        refreshResume_def deleteTokens_def truthyString_def responseOk_def errorBody_def
        expiredState_def expiredTokens_def)
  with s'(1) have a: "getUserTokens 1000000 1000005 (Response 400 errorBody) expiredState
     = (None, \<lparr> sess = Some \<lparr> session_id = ''sid'', session_tokens = None, saves = 1 \<rparr>,
                 refreshCalls = [''refresh-1''] \<rparr>)"
    by simp
  have f: "transientFailure (Response 503 JsonRejects)" "transientFailure FetchThrows"
    by (simp_all add: transientFailure_def responseOk_def)
  from policy[of "Response 503 JsonRejects" 1000005, THEN conjunct2, THEN conjunct1] f(1)
  have b: "fst (getUserTokens 1000000 1000005 (Response 503 JsonRejects) expiredState) = None
     \<and> currentTokens (snd (getUserTokens 1000000 1000005 (Response 503 JsonRejects) expiredState))
         = Some expiredTokens"
    by auto
  from policy[of FetchThrows 1000005, THEN conjunct2, THEN conjunct1] f(2)
  have c: "currentTokens (snd (getUserTokens 1000000 1000005 FetchThrows expiredState))
         = Some expiredTokens"
    by auto
  have t: "truthyString (access_token \<lparr> access_token = Some ''new-access'', refresh_token = None,
             expires_in = 3600, token_scope = None \<rparr>) = Some ''new-access''"
    by (simp add: truthyString_def)
  from policy[where outcome = "Response 503 JsonRejects" and now' = 1000005 and later = 2000000
      and now'' = 2000005 and token = "''new-access''"
      and td = "\<lparr> access_token = Some ''new-access'', refresh_token = None, expires_in = 3600, token_scope = None \<rparr>",
      THEN conjunct2, THEN conjunct2] f(1) t
  have d: "\<exists>tk' s''. getUserTokens 2000000 2000005 goodAnswer
                    (snd (getUserTokens 1000000 1000005 (Response 503 JsonRejects) expiredState))
                  = (Some tk', s'')
         \<and> accessToken tk' = ''new-access''"
    by (auto simp add: goodAnswer_def)
  from a b c d show ?thesis by simp
qed

text \<open>
  A status 400 or 401 whose body is not JSON is outside both cases: reading the body
  throws before the status is tested, and the record stays.
\<close>

lemma unreadable_rejection_keeps_record:
  "getUserTokens 1000000 1000005 (Response 400 JsonRejects) expiredState
     = (None, expiredState\<lparr> refreshCalls := [''refresh-1''] \<rparr>)"
  "getUserTokens 1000000 1000005 (Response 401 JsonRejects) expiredState
     = (None, expiredState\<lparr> refreshCalls := [''refresh-1''] \<rparr>)"
  by (simp_all add: getUserTokens_def getUserTokensStart_def refreshStart_def
      getUserTokensResume_def refreshResume_def truthyString_def responseOk_def
      expiredState_def expiredTokens_def)

subsection \<open>Calls in flight together\<close>

lemma two_calls_in_flight:
  assumes "sess s = Some session" and "session_tokens session = Some tk"
    and "truthyString (refreshToken tk) = Some rt"
    and "expiresAt tk \<le> now1 + 60000" and "expiresAt tk \<le> now2 + 60000"
  shows "runEvents (initialLoop s) [Call c1 now1, Call c2 now2]
           = \<lparr> auth = s\<lparr> refreshCalls := refreshCalls s @ [rt, rt] \<rparr>,
               waiting = [(c1, rt), (c2, rt)],
               returned = [] \<rparr>"
proof -
  define s1 where "s1 = s\<lparr> refreshCalls := refreshCalls s @ [rt] \<rparr>"
  have 1: "getUserTokensStart now1 s = Waiting rt s1"
    using getUserTokensStart_expired[OF assms(1,2,4)] assms(3) by (simp add: s1_def)
  have "sess s1 = Some session" by (simp add: s1_def assms(1))
  from getUserTokensStart_expired[OF this assms(2,5)] assms(3)
  have 2: "getUserTokensStart now2 s1 = Waiting rt (s1\<lparr> refreshCalls := refreshCalls s1 @ [rt] \<rparr>)"
    by simp
  show ?thesis
    by (simp add: runEvents_def stepEvent_def initialLoop_def 1 2) (simp add: s1_def)
qed

lemma one_call_after_another:
  assumes "sess s = Some session" and "session_tokens session = Some tk"
    and "truthyString (refreshToken tk) = Some rt"
    and "expiresAt tk \<le> now1 + 60000"
    and "responseOk status" and "truthyString (access_token td) = Some token"
    and "now1' + expires_in td * 1000 > now2 + 60000"
    and "tk' = \<lparr> accessToken = token,
                  refreshToken = (if truthy (refresh_token td) then refresh_token td else Some rt),
                  expiresAt = now1' + expires_in td * 1000, scope = token_scope td \<rparr>"
  shows "runEvents (initialLoop s)
            [Call c1 now1, Answer c1 now1' (Response status (JsonValue td)), Call c2 now2]
           = \<lparr> auth = \<lparr> sess = Some (session\<lparr> session_tokens := Some tk', saves := saves session + 1 \<rparr>),
                        refreshCalls = refreshCalls s @ [rt] \<rparr>,
               waiting = [],
               returned = [(c1, Some tk'), (c2, Some tk')] \<rparr>"
proof -
  define s1 where "s1 = s\<lparr> refreshCalls := refreshCalls s @ [rt] \<rparr>"
  define s2 where "s2 = \<lparr> sess = Some (session\<lparr> session_tokens := Some tk', saves := saves session + 1 \<rparr>),
                        refreshCalls = refreshCalls s @ [rt] \<rparr>"
  have 1: "getUserTokensStart now1 s = Waiting rt s1"
    using getUserTokensStart_expired[OF assms(1,2,4)] assms(3) by (simp add: s1_def)
  from truthyString_Some[OF assms(6)] have n: "token \<noteq> []" by simp
  have 2: "getUserTokensResume now1' rt (Response status (JsonValue td)) s1 = (Some tk', s2)"
    using assms(5,6) n
    by (simp add: getUserTokensResume_def refreshResume_def setUserTokens_def withRefreshToken_def
        currentTokens_def s1_def s2_def assms(1,8) truthy_def truthyString_def Let_def)
  have 3: "getUserTokensStart now2 s2 = Done (Some tk') s2"
    using assms(7) by (simp add: getUserTokensStart_def s2_def assms(8))
  show ?thesis
    by (simp add: runEvents_def stepEvent_def initialLoop_def 1 2 3) (simp add: s2_def)
qed

lemma getUserTokensStart_calls:
  "getUserTokensStart now s = Done r s' \<Longrightarrow>
     refreshDue now s = None \<and> refreshCalls s' = refreshCalls s"
  "getUserTokensStart now s = Waiting rt s' \<Longrightarrow>
     refreshDue now s = Some rt \<and> refreshCalls s' = refreshCalls s @ [rt]"
  by (auto simp: getUserTokensStart_def refreshStart_def refreshDue_def currentTokens_def
      split: option.splits if_splits progress.splits sum.splits)

lemma call_sends_when_due:
  "refreshCalls (auth (stepEvent w (Call c now)))
     = refreshCalls (auth w) @ (case refreshDue now (auth w) of None \<Rightarrow> [] | Some rt \<Rightarrow> [rt])"
proof (cases "getUserTokensStart now (auth w)")
  case (Done r s')
  from getUserTokensStart_calls(1)[OF this] Done show ?thesis
    by (simp add: stepEvent_def)
next
  case (Waiting rt s')
  from getUserTokensStart_calls(2)[OF this] Waiting show ?thesis
    by (simp add: stepEvent_def)
qed

lemma call_waits_when_due:
  "map snd (waiting (stepEvent w (Call c now)))
     = map snd (waiting w) @ (case refreshDue now (auth w) of None \<Rightarrow> [] | Some rt \<Rightarrow> [rt])"
proof (cases "getUserTokensStart now (auth w)")
  case (Done r s')
  from getUserTokensStart_calls(1)[OF this] Done show ?thesis
    by (simp add: stepEvent_def)
next
  case (Waiting rt s')
  from getUserTokensStart_calls(2)[OF this] Waiting show ?thesis
    by (simp add: stepEvent_def)
qed

lemma answer_sends_nothing:
  "refreshCalls (auth (stepEvent w (Answer c now' outcome))) = refreshCalls (auth w)"
proof (cases "map_of (waiting w) c")
  case None
  then show ?thesis by (simp add: stepEvent_def)
next
  case (Some rt)
  with getUserTokensResume_calls[of now' rt outcome "auth w"] show ?thesis
    by (auto simp: stepEvent_def split: prod.splits)
qed

text \<open>
  C3, as stated, fails: two token requests for the same expired session that are in flight
  together send two refresh requests, both carrying the same refresh token. Caller 1 and
  caller 2 enter \<open>getUserTokens\<close> before either answer arrives; both are then
  waiting for the provider, and the log holds two refresh requests.
\<close>

theorem refresh_overlap:
  "waiting (runEvents (initialLoop expiredState) [Call 1 1000000, Call 2 1000001])
     = [(1, ''refresh-1''), (2, ''refresh-1'')]
   \<and> refreshCalls (auth (runEvents (initialLoop expiredState) [Call 1 1000000, Call 2 1000001]))
     = [''refresh-1'', ''refresh-1'']
   \<and> refreshCalls (auth (runEvents (initialLoop expiredState)
        [Call 1 1000000, Call 2 1000001, Answer 1 1000005 goodAnswer, Answer 2 1000006 goodAnswer]))
     = [''refresh-1'', ''refresh-1'']
   \<and> length (refreshCalls (auth (runEvents (initialLoop expiredState)
        [Call 1 1000000, Call 2 1000001, Answer 1 1000005 goodAnswer, Answer 2 1000006 goodAnswer])))
     \<noteq> 1"
  by (simp add: runEvents_def stepEvent_def initialLoop_def getUserTokensStart_def refreshStart_def
      getUserTokensResume_def refreshResume_def setUserTokens_def withRefreshToken_def
      currentTokens_def truthy_def truthyString_def responseOk_def goodAnswer_def expiredState_def
      expiredTokens_def Let_def)

text \<open>
  C3, amended. Refreshes of one session are not mutually exclusive. Whatever calls are
  waiting for the provider, a call of \<open>getUserTokens\<close> sends a refresh request (and
  joins the waiting calls) exactly when, at its start, the session holds a record that is
  within the 60 second margin and has a refresh token; an answer of the provider sends
  none. So two calls for the same expired session that start before either is answered
  trigger two upstream refresh calls, both with the same refresh token, and are in flight
  together. When the second call starts after the first has been answered with a token
  that is valid for more than 60 seconds, it sends none and returns the stored tokens:
  one refresh call in all.
\<close>

theorem refresh_not_serialized:
  "refreshCalls (auth (stepEvent w (Call c now)))
     = refreshCalls (auth w) @ (case refreshDue now (auth w) of None \<Rightarrow> [] | Some rt \<Rightarrow> [rt])
   \<and> map snd (waiting (stepEvent w (Call c now)))
     = map snd (waiting w) @ (case refreshDue now (auth w) of None \<Rightarrow> [] | Some rt \<Rightarrow> [rt])
   \<and> refreshCalls (auth (stepEvent w (Answer c now' outcome))) = refreshCalls (auth w)
   \<and> (sess s = Some session \<and> session_tokens session = Some tk
        \<and> truthyString (refreshToken tk) = Some rt
        \<and> expiresAt tk \<le> now1 + 60000 \<and> expiresAt tk \<le> now2 + 60000 \<longrightarrow>
          refreshCalls (auth (runEvents (initialLoop s) [Call c1 now1, Call c2 now2]))
            = refreshCalls s @ [rt, rt]
          \<and> waiting (runEvents (initialLoop s) [Call c1 now1, Call c2 now2]) = [(c1, rt), (c2, rt)]
          \<and> returned (runEvents (initialLoop s) [Call c1 now1, Call c2 now2]) = [])
   \<and> (sess s = Some session \<and> session_tokens session = Some tk
        \<and> truthyString (refreshToken tk) = Some rt \<and> expiresAt tk \<le> now1 + 60000
        \<and> responseOk status \<and> truthyString (access_token td) = Some token
        \<and> now1' + expires_in td * 1000 > later + 60000 \<longrightarrow>
          refreshCalls (auth (runEvents (initialLoop s)
             [Call c1 now1, Answer c1 now1' (Response status (JsonValue td)), Call c2 later]))
            = refreshCalls s @ [rt]
          \<and> waiting (runEvents (initialLoop s)
             [Call c1 now1, Answer c1 now1' (Response status (JsonValue td)), Call c2 later]) = []
          \<and> map fst (returned (runEvents (initialLoop s)
             [Call c1 now1, Answer c1 now1' (Response status (JsonValue td)), Call c2 later])) = [c1, c2]
          \<and> (\<exists>tk'. map snd (returned (runEvents (initialLoop s)
                 [Call c1 now1, Answer c1 now1' (Response status (JsonValue td)), Call c2 later]))
                   = [Some tk', Some tk']
                 \<and> accessToken tk' = token))"
proof -
  have a: "refreshCalls (auth (runEvents (initialLoop s) [Call c1 now1, Call c2 now2]))
            = refreshCalls s @ [rt, rt]
          \<and> waiting (runEvents (initialLoop s) [Call c1 now1, Call c2 now2]) = [(c1, rt), (c2, rt)]
          \<and> returned (runEvents (initialLoop s) [Call c1 now1, Call c2 now2]) = []"
    if "sess s = Some session" "session_tokens session = Some tk"
      "truthyString (refreshToken tk) = Some rt"
      "expiresAt tk \<le> now1 + 60000" "expiresAt tk \<le> now2 + 60000"
    by (simp add: two_calls_in_flight[OF that])
  have b: "refreshCalls (auth (runEvents (initialLoop s)
             [Call c1 now1, Answer c1 now1' (Response status (JsonValue td)), Call c2 later]))
            = refreshCalls s @ [rt]
          \<and> waiting (runEvents (initialLoop s)
             [Call c1 now1, Answer c1 now1' (Response status (JsonValue td)), Call c2 later]) = []
          \<and> map fst (returned (runEvents (initialLoop s)
             [Call c1 now1, Answer c1 now1' (Response status (JsonValue td)), Call c2 later])) = [c1, c2]
          \<and> (\<exists>tk'. map snd (returned (runEvents (initialLoop s)
                 [Call c1 now1, Answer c1 now1' (Response status (JsonValue td)), Call c2 later]))
                   = [Some tk', Some tk']
                 \<and> accessToken tk' = token)"
    if "sess s = Some session" "session_tokens session = Some tk"
      "truthyString (refreshToken tk) = Some rt" "expiresAt tk \<le> now1 + 60000"
      "responseOk status" "truthyString (access_token td) = Some token"
      "now1' + expires_in td * 1000 > later + 60000"
    by (simp add: one_call_after_another[OF that refl])
  from a b call_sends_when_due[of w c now] call_waits_when_due[of w c now]
    answer_sends_nothing[of w c now' outcome]
  show ?thesis by (intro conjI impI) simp_all
qed

theorem refresh_not_serialized_witness:
  "refreshCalls (auth (stepEvent
       \<lparr> auth = expiredState\<lparr> refreshCalls := [''refresh-1''] \<rparr>,
         waiting = [(1, ''refresh-1'')], returned = [] \<rparr> (Call 2 1000001)))
     = [''refresh-1'', ''refresh-1'']
   \<and> refreshCalls (auth (runEvents (initialLoop expiredState) [Call 1 1000000, Call 2 1000001]))
     = [''refresh-1'', ''refresh-1'']
   \<and> refreshCalls (auth (runEvents (initialLoop expiredState)
        [Call 1 1000000, Answer 1 1000005 goodAnswer, Call 2 1000010]))
     = [''refresh-1'']
   \<and> map fst (returned (runEvents (initialLoop expiredState)
        [Call 1 1000000, Answer 1 1000005 goodAnswer, Call 2 1000010])) = [1, 2]"
proof -
  have h: "sess expiredState = Some \<lparr> session_id = ''sid'', session_tokens = Some expiredTokens, saves = 0 \<rparr>
      \<and> session_tokens \<lparr> session_id = ''sid'', session_tokens = Some expiredTokens, saves = 0 \<rparr>
             = Some expiredTokens
      \<and> truthyString (refreshToken expiredTokens) = Some ''refresh-1''
      \<and> expiresAt expiredTokens \<le> 1000000 + 60000
      \<and> expiresAt expiredTokens \<le> 1000001 + 60000"
    by (simp add: expiredState_simps truthyString_def)
  have d: "refreshDue 1000001 (expiredState\<lparr> refreshCalls := [''refresh-1''] \<rparr>) = Some ''refresh-1''"
    by (simp add: refreshDue_def currentTokens_def expiredState_def expiredTokens_def
        truthyString_def)
  note general = refresh_not_serialized[where s = expiredState and tk = expiredTokens
      and rt = "''refresh-1''" and ?c1.0 = 1 and ?c2.0 = 2 and ?now1.0 = 1000000
      and session = "\<lparr> session_id = ''sid'', session_tokens = Some expiredTokens, saves = 0 \<rparr>"]
  from general[where w = "\<lparr> auth = expiredState\<lparr> refreshCalls := [''refresh-1''] \<rparr>,
         waiting = [(1, ''refresh-1'')], returned = [] \<rparr>" and c = 2 and now = 1000001,
      THEN conjunct1] d
  have 1: "refreshCalls (auth (stepEvent
       \<lparr> auth = expiredState\<lparr> refreshCalls := [''refresh-1''] \<rparr>,
         waiting = [(1, ''refresh-1'')], returned = [] \<rparr> (Call 2 1000001)))
     = [''refresh-1'', ''refresh-1'']"
    by simp
  from general[where ?now2.0 = 1000001, THEN conjunct2, THEN conjunct2, THEN conjunct2, THEN conjunct1] h
  have 2: "refreshCalls (auth (runEvents (initialLoop expiredState) [Call 1 1000000, Call 2 1000001]))
     = [''refresh-1'', ''refresh-1'']"
    by (simp add: expiredState_simps)
  from general[where status = 200 and token = "''new-access''" and now1' = 1000005 and later = 1000010
      and td = "\<lparr> access_token = Some ''new-access'', refresh_token = None, expires_in = 3600, token_scope = None \<rparr>",
      THEN conjunct2, THEN conjunct2, THEN conjunct2, THEN conjunct2] h
  have 3: "refreshCalls (auth (runEvents (initialLoop expiredState)
        [Call 1 1000000, Answer 1 1000005 goodAnswer, Call 2 1000010]))
     = [''refresh-1'']
   \<and> map fst (returned (runEvents (initialLoop expiredState)
        [Call 1 1000000, Answer 1 1000005 goodAnswer, Call 2 1000010])) = [1, 2]"
    by (simp add: expiredState_simps goodAnswer_def responseOk_def truthyString_def)
  from 1 2 3 show ?thesis by simp
qed

subsection \<open>The read-through cache\<close>

lemma getWithCache_miss:
  assumes "\<not> get_throws env" and "cacheMiss w cacheKey"
  shows "getWithCache env cacheKey fetcher ttlSeconds w = computeAndStore env cacheKey fetcher ttlSeconds w"
  using assms
  by (auto simp: getWithCache_def cacheMiss_def split: option.splits cachedText.splits)

lemma getWithCache_stores_whatever:
  assumes "\<not> get_throws env" and "\<not> set_throws env" and "cacheMiss w cacheKey"
    and "fetcher (fetcherCalls w) = Inr freshData"
  shows "getWithCache env cacheKey fetcher ttlSeconds w =
           (Inr freshData,
            w\<lparr> fetcherCalls := fetcherCalls w + 1,
                store := (store w)(cacheKey \<mapsto> (Stringified freshData, ttlSeconds)) \<rparr>)"
  using assms by (simp add: getWithCache_miss computeAndStore_def callFetcher_def)

text \<open>
  C1 does not hold of \<open>_getWithCache\<close> as it stands in \<open>src/core/spotify.js\<close>:
  after a miss the function writes whatever the compute function returned (lemma
  \<open>getWithCache_stores_whatever\<close>), and so a payload with \<open>success: false\<close> too. On
  an empty, healthy backend, with a compute function that returns such a payload, the
  payload is returned and is in the backend under the key afterwards.
\<close>

theorem failure_payload_is_cached:
  "explicitFailure failurePayload
   \<and> store emptyCache ''cache:search:x'' = None
   \<and> fst (getWithCache healthy ''cache:search:x'' failingFetcher 3600 emptyCache) = Inr failurePayload
   \<and> store (snd (getWithCache healthy ''cache:search:x'' failingFetcher 3600 emptyCache)) ''cache:search:x''
       = Some (Stringified failurePayload, 3600)"
  by (simp add: getWithCache_def computeAndStore_def callFetcher_def explicitFailure_def
      failurePayload_def emptyCache_def healthy_def failingFetcher_def)

text \<open>
  The repository's other copy of the function has the guard: a payload with
  \<open>success: false\<close> leaves the backend as it was.
\<close>

lemma guarded_copy_skips_failures:
  assumes "fetcher (fetcherCalls w) = Inr freshData" and "explicitFailure freshData"
  shows "store (snd (getWithCacheGuarded env key fetcher ttlSeconds w)) = store w"
  using assms
  by (auto simp: getWithCacheGuarded_def callFetcher_def split: option.splits cachedText.splits prod.splits)

lemma guarded_copy_on_failure_payload:
  "store (snd (getWithCacheGuarded healthy ''cache:search:x'' failingFetcher 3600 emptyCache)) ''cache:search:x''
     = None"
  using guarded_copy_skips_failures[of failingFetcher emptyCache failurePayload healthy "''cache:search:x''" 3600]
  by (simp add: failingFetcher_def explicitFailure_def failurePayload_def emptyCache_def)

text \<open>
  C10. Within one call of \<open>_getWithCache\<close> whose cache read succeeded with a miss: if
  the compute function throws, or it returns and the cache write throws, the compute
  function is invoked a second time and the call ends as that second invocation does:
  with its value, or with the error it throws. The compute function has then run twice and
  nothing has been written to the backend.
\<close>

theorem compute_twice_on_throw:
  assumes "\<not> get_throws env" and "cacheMiss w cacheKey"
    and "(\<exists>err. fetcher (fetcherCalls w) = Inl err) \<or> set_throws env"
  shows "getWithCache env cacheKey fetcher ttlSeconds w
           = (fetcher (fetcherCalls w + 1), w\<lparr> fetcherCalls := fetcherCalls w + 2 \<rparr>)"
proof -
  have "computeAndStore env cacheKey fetcher ttlSeconds w
           = (fetcher (fetcherCalls w + 1), w\<lparr> fetcherCalls := fetcherCalls w + 2 \<rparr>)"
    using assms(3)
    by (cases "fetcher (fetcherCalls w)") (auto simp: computeAndStore_def callFetcher_def)
  with getWithCache_miss[OF assms(1,2)] show ?thesis by simp
qed

theorem compute_twice_on_throw_witness:
  "getWithCache healthy ''k'' flakyFetcher 60 emptyCache
     = (Inr (JNum 7), \<lparr> store = Map.empty, fetcherCalls = 2 \<rparr>)
   \<and> getWithCache healthy ''k'' brokenFetcher 60 emptyCache
     = (Inl ''still down'', \<lparr> store = Map.empty, fetcherCalls = 2 \<rparr>)
   \<and> getWithCache \<lparr> get_throws = False, set_throws = True \<rparr> ''k'' failingFetcher 60 emptyCache
     = (Inr failurePayload, \<lparr> store = Map.empty, fetcherCalls = 2 \<rparr>)"
proof -
  have h: "\<not> get_throws healthy" "cacheMiss emptyCache ''k''"
    "\<not> get_throws \<lparr> get_throws = False, set_throws = True \<rparr>"
    by (simp_all add: healthy_def cacheMiss_def emptyCache_def)
  have f: "(\<exists>err. flakyFetcher (fetcherCalls emptyCache) = Inl err) \<or> set_throws healthy"
    "(\<exists>err. brokenFetcher (fetcherCalls emptyCache) = Inl err) \<or> set_throws healthy"
    "(\<exists>err. failingFetcher (fetcherCalls emptyCache) = Inl err)
       \<or> set_throws \<lparr> get_throws = False, set_throws = True \<rparr>"
    by (simp_all add: flakyFetcher_def brokenFetcher_def emptyCache_def)
  from compute_twice_on_throw[where fetcher = flakyFetcher and ttlSeconds = 60, OF h(1,2) f(1)]
    compute_twice_on_throw[where fetcher = brokenFetcher and ttlSeconds = 60, OF h(1,2) f(2)]
    compute_twice_on_throw[where fetcher = failingFetcher and ttlSeconds = 60, OF h(3,2) f(3)]
  show ?thesis
    by (simp add: flakyFetcher_def brokenFetcher_def failingFetcher_def emptyCache_def)
qed

end
